theory Spec2Isabelle
  imports Main "HOL-Library.AList" "HOL-Library.Word"
begin

section \<open>Data model of \<^verbatim>\<open>sctools/count.py\<close>\<close>

text \<open>
  Exceptions of the Python source are values: \<open>ValueError\<close> is raised for a gene record
  without a \<^verbatim>\<open>gene_name\<close> attribute and by the sparse matrix constructors,
  \<open>KeyError\<close> by a failed dictionary or tag lookup, \<open>IndexError\<close> by \<^verbatim>\<open>xs[0]\<close> on an
  empty list, \<open>FileNotFoundError\<close> by loading a path that does not exist.
\<close>

datatype error =
    ValueError string
  | KeyError string
  | IndexError
  | FileNotFoundError string

text \<open>
  An annotation record exposes its feature type and its attributes; an alignment record
  exposes its optional tags and its mapping quality.
\<close>

record gtf_record =
  feature_type :: string
  attributes :: "(string \<times> string) list"

record sam_record =
  tags :: "(string \<times> string) list"
  mapping_quality :: int

text \<open>
  Modelled from the spec: the module \<^verbatim>\<open>sctools.gtf\<close> (the \<^verbatim>\<open>Reader\<close>, its
  \<^verbatim>\<open>filter\<close> and the record's \<^verbatim>\<open>get_attribute\<close>) is not part of the source at hand. The
  spec describes it as "an iterator over feature records exposing a type filter and
  attribute lookup": \<open>gtf_filter\<close> keeps, in order, the records whose feature type is one of
  the retained types, and \<open>get_attribute\<close> is \<open>None\<close> for an attribute that is absent.
\<close>

definition gtf_filter :: "string list \<Rightarrow> gtf_record list \<Rightarrow> gtf_record list" where
  "gtf_filter retain_types records = filter (\<lambda>r. feature_type r \<in> set retain_types) records"

definition get_attribute :: "gtf_record \<Rightarrow> string \<Rightarrow> string option" where
  "get_attribute r key = map_of (attributes r) key"

text \<open>\<^verbatim>\<open>sam_record.get_tag(tag)\<close> raises \<open>KeyError\<close> when the record does not carry the tag.\<close>

definition get_tag :: "sam_record \<Rightarrow> string \<Rightarrow> error + string" where
  "get_tag r tag = (case map_of (tags r) tag of
                      None \<Rightarrow> Inl (KeyError tag)
                    | Some v \<Rightarrow> Inr v)"

text \<open>
  A Python \<^verbatim>\<open>dict\<close> with string keys is an association list in insertion order:
  \<^verbatim>\<open>d[k] = v\<close> is \<^const>\<open>AList.update\<close> (an existing key keeps its position and gets the new
  value, a new key is appended), \<^verbatim>\<open>d[k]\<close> raises \<open>KeyError\<close> on a missing key and
  \<^verbatim>\<open>len(d)\<close> is the length of the list.
\<close>

type_synonym 'v dict = "(string \<times> 'v) list"

definition dict_get :: "'v dict \<Rightarrow> string \<Rightarrow> error + 'v" where
  "dict_get d k = (case map_of d k of None \<Rightarrow> Inl (KeyError k) | Some v \<Rightarrow> Inr v)"

text \<open>
  \<^verbatim>\<open>[k for k, v in sorted(d.items(), key=operator.itemgetter(1))]\<close>: the keys of the
  dictionary in the order of their values (Python's sort is stable, and so is
  \<^const>\<open>sort_key\<close>).
\<close>

definition keys_by_value :: "nat dict \<Rightarrow> string list" where
  "keys_by_value d = map fst (sort_key snd d)"

subsection \<open>Sparse matrices\<close>

text \<open>
  \<^verbatim>\<open>scipy.sparse.coo_matrix((data, (row, col)), shape=shape, dtype=np.uint32)\<close> holds
  the three coordinate arrays and the shape. Its constructor raises \<open>ValueError\<close> when a
  row or column coordinate does not fit the shape (the check is made only when there is
  at least one entry). The type \<open>'v\<close> of the values is the \<^verbatim>\<open>dtype\<close> of the matrix; with
  \<^verbatim>\<open>dtype=np.uint32\<close> the values are unsigned 32-bit integers.
\<close>

record 'v coo_matrix =
  coo_shape :: "nat \<times> nat"
  coo_data :: "'v list"
  coo_row :: "nat list"
  coo_col :: "nat list"

definition new_coo_matrix ::
  "nat list \<Rightarrow> nat list \<Rightarrow> nat list \<Rightarrow> nat \<times> nat \<Rightarrow> error + 32 word coo_matrix" where
  "new_coo_matrix dat rows cols shp =
     (if length rows \<noteq> length dat \<or> length cols \<noteq> length dat
      then Inl (ValueError ''row, column, and data array must all be the same length'')
      else if dat \<noteq> [] \<and> \<not> (\<forall>i \<in> set rows. i < fst shp)
      then Inl (ValueError ''row index exceeds matrix dimensions'')
      else if dat \<noteq> [] \<and> \<not> (\<forall>j \<in> set cols. j < snd shp)
      then Inl (ValueError ''column index exceeds matrix dimensions'')
      else Inr \<lparr> coo_shape = shp, coo_data = map of_nat dat, coo_row = rows, coo_col = cols \<rparr>)"

text \<open>
  A compressed-sparse-row matrix is its number of columns and one list per row of the
  stored (column, value) pairs, by increasing column. Its shape is
  (number of rows, number of columns).
\<close>

record 'v csr_matrix =
  csr_rows :: "(nat \<times> 'v) list list"
  n_cols :: nat

definition shape :: "'v csr_matrix \<Rightarrow> nat \<times> nat" where
  "shape m = (length (csr_rows m), n_cols m)"

text \<open>
  \<^verbatim>\<open>coo.tocsr()\<close> sums the entries that share a coordinate (in the arithmetic of
  the matrix's values) and stores each row's columns in increasing order.
\<close>

definition coo_entries :: "'v coo_matrix \<Rightarrow> (nat \<times> nat \<times> 'v) list" where
  "coo_entries c = zip (coo_row c) (zip (coo_col c) (coo_data c))"

definition coo_sum :: "('v::monoid_add) coo_matrix \<Rightarrow> nat \<Rightarrow> nat \<Rightarrow> 'v" where
  "coo_sum c i j = sum_list [d. (r, k, d) \<leftarrow> coo_entries c, r = i \<and> k = j]"

definition tocsr :: "('v::monoid_add) coo_matrix \<Rightarrow> 'v csr_matrix" where
  "tocsr c =
     \<lparr> csr_rows = map (\<lambda>i. map (\<lambda>j. (j, coo_sum c i j))
                             (sort (remdups [k. (r, k, d) \<leftarrow> coo_entries c, r = i])))
                      [0 ..< fst (coo_shape c)],
       n_cols = snd (coo_shape c) \<rparr>"

text \<open>The value of a matrix at a coordinate inside its shape; an entry not stored is 0.\<close>

definition csr_get :: "('v::zero) csr_matrix \<Rightarrow> nat \<Rightarrow> nat \<Rightarrow> 'v" where
  "csr_get m i j = (case map_of (csr_rows m ! i) j of None \<Rightarrow> 0 | Some v \<Rightarrow> v)"

subsection \<open>\<^verbatim>\<open>CountMatrix\<close>\<close>

text \<open>
  The class holds the matrix and the two label arrays. A label array is the list of its
  strings. \<^verbatim>\<open>np.array\<close> stores strings in fixed width and returns each of them without
  its trailing NUL characters (\<open>np_array\<close>). The labels that \<^verbatim>\<open>from_bam\<close> builds are
  values of alignment tags and of annotation attributes, which are taken to have no NUL
  character: for them \<^verbatim>\<open>np.array\<close> is the list itself.
\<close>

definition rstrip_nul :: "string \<Rightarrow> string" where
  "rstrip_nul s = rev (dropWhile (\<lambda>c. c = CHR 0x00) (rev s))"

definition np_array :: "string list \<Rightarrow> string list" where
  "np_array xs = map rstrip_nul xs"

record 'v count_matrix =
  matrix :: "'v csr_matrix"
  row_index :: "string list"
  col_index :: "string list"

section \<open>\<^verbatim>\<open>CountMatrix.from_bam\<close>\<close>

text \<open>
  The parameters of \<^verbatim>\<open>from_bam\<close> that decide the result (\<^verbatim>\<open>open_mode\<close> only selects
  the decoder of the alignment file, which is given here as the list of its records).
\<close>

record params =
  cell_barcode_tag :: string
  molecule_barcode_tag :: string
  gene_id_tag :: string
  mapq_threshold :: int

definition default_params :: params where
  "default_params = \<lparr> cell_barcode_tag = ''CB'', molecule_barcode_tag = ''UB'',
                       gene_id_tag = ''GE'', mapq_threshold = 0 \<rparr>"

text \<open>
  Lines 115 to 125: the loop over \<^verbatim>\<open>enumerate(gtf_reader.filter(retain_types=['gene']))\<close>.
  The first argument is the running \<^verbatim>\<open>gene_index\<close> of \<^verbatim>\<open>enumerate\<close>.
\<close>

fun gene_index_loop :: "nat \<Rightarrow> gtf_record list \<Rightarrow> nat dict \<Rightarrow> error + nat dict" where
  "gene_index_loop gene_index [] gene_id_to_index = Inr gene_id_to_index"
| "gene_index_loop gene_index (record # records) gene_id_to_index =
     (case get_attribute record ''gene_name'' of
        None \<Rightarrow> Inl (ValueError ''malformed GTF file detected. Record is of type gene but does not have a gene_name field'')
      | Some gene_id \<Rightarrow>
          gene_index_loop (Suc gene_index) records
            (AList.update gene_id gene_index gene_id_to_index))"

definition build_gene_index :: "gtf_record list \<Rightarrow> error + nat dict" where
  "build_gene_index annotation = gene_index_loop 0 (gtf_filter [''gene''] annotation) []"

text \<open>
  The state of the scan over the alignment records (lines 111 to 113 and 128 to 132).
  \<^verbatim>\<open>current_molecule\<close> starts as the empty tuple, which equals no triple: \<open>None\<close>.
\<close>

record scan_state =
  data :: "nat list"
  cell_indices :: "nat list"
  gene_indices :: "nat list"
  n_cells :: nat
  cell_id_to_index :: "nat dict"
  current_molecule :: "(string \<times> string \<times> string) option"

definition init_state :: scan_state where
  "init_state = \<lparr> data = [], cell_indices = [], gene_indices = [], n_cells = 0,
                    cell_id_to_index = [], current_molecule = None \<rparr>"

text \<open>
  Lines 139 to 144: the three tags, read in the order gene, cell, molecule; a missing
  tag is the \<open>KeyError\<close> that the loop catches to drop the record.
\<close>

definition get_molecule :: "params \<Rightarrow> sam_record \<Rightarrow> error + (string \<times> string \<times> string)" where
  "get_molecule p r =
     (case get_tag r (gene_id_tag p) of
        Inl e \<Rightarrow> Inl e
      | Inr gene \<Rightarrow>
          (case get_tag r (cell_barcode_tag p) of
             Inl e \<Rightarrow> Inl e
           | Inr cell \<Rightarrow>
               (case get_tag r (molecule_barcode_tag p) of
                  Inl e \<Rightarrow> Inl e
                | Inr molecule \<Rightarrow> Inr (gene, cell, molecule))))"

text \<open>Lines 157 to 163: the row of a cell, allocated at its first occurrence.\<close>

definition lookup_cell :: "scan_state \<Rightarrow> string \<Rightarrow> nat \<times> scan_state" where
  "lookup_cell s cell =
     (case dict_get (cell_id_to_index s) cell of
        Inr cell_index \<Rightarrow> (cell_index, s)
      | Inl e \<Rightarrow> (n_cells s,
                  s\<lparr> cell_id_to_index := AList.update cell (n_cells s) (cell_id_to_index s),
                     n_cells := n_cells s + 1 \<rparr>))"

text \<open>
  Lines 154 to 171: a molecule that is not the current one is counted. The gene must
  be in the index (\<open>KeyError\<close> otherwise); one entry is appended to the three coordinate
  lists and the molecule becomes the current one.
\<close>

definition count_molecule ::
  "nat dict \<Rightarrow> scan_state \<Rightarrow> string \<times> string \<times> string \<Rightarrow> error + scan_state" where
  "count_molecule gene_id_to_index s k =
     (case k of (gene, cell, molecule) \<Rightarrow>
        (case dict_get gene_id_to_index gene of
           Inl e \<Rightarrow> Inl e
         | Inr gene_index \<Rightarrow>
             (case lookup_cell s cell of
                (cell_index, s1) \<Rightarrow>
                  Inr (s1\<lparr> data := data s1 @ [1],
                           cell_indices := cell_indices s1 @ [cell_index],
                           gene_indices := gene_indices s1 @ [gene_index],
                           current_molecule := Some (gene, cell, molecule) \<rparr>))))"

text \<open>Lines 138 to 171: the body of the loop, for one record.\<close>

definition process_record ::
  "params \<Rightarrow> nat dict \<Rightarrow> scan_state \<Rightarrow> sam_record \<Rightarrow> error + scan_state" where
  "process_record p gene_id_to_index s r =
     (case get_molecule p r of
        Inl e \<Rightarrow> Inr s
      | Inr k \<Rightarrow>
          if mapping_quality r < mapq_threshold p then Inr s
          else if current_molecule s = Some k then Inr s
          else count_molecule gene_id_to_index s k)"

text \<open>Line 136: the loop; an exception ends it.\<close>

fun scan_records ::
  "params \<Rightarrow> nat dict \<Rightarrow> scan_state \<Rightarrow> sam_record list \<Rightarrow> error + scan_state" where
  "scan_records p gene_id_to_index s [] = Inr s"
| "scan_records p gene_id_to_index s (r # rs) =
     (case process_record p gene_id_to_index s r of
        Inl e \<Rightarrow> Inl e
      | Inr s' \<Rightarrow> scan_records p gene_id_to_index s' rs)"

text \<open>Lines 173 to 187: the shape, the coordinate matrix and the label arrays.\<close>

definition finish :: "nat dict \<Rightarrow> scan_state \<Rightarrow> error + 32 word count_matrix" where
  "finish gene_id_to_index s =
     (let gene_number = length gene_id_to_index;
          cell_number = length (cell_indices s);
          shp = (cell_number, gene_number)
      in case new_coo_matrix (data s) (cell_indices s) (gene_indices s) shp of
           Inl e \<Rightarrow> Inl e
         | Inr coordinate_matrix \<Rightarrow>
             Inr \<lparr> matrix = tocsr coordinate_matrix,
                   row_index = keys_by_value (cell_id_to_index s),
                   col_index = keys_by_value gene_id_to_index \<rparr>)"

definition from_bam ::
  "params \<Rightarrow> gtf_record list \<Rightarrow> sam_record list \<Rightarrow> error + 32 word count_matrix" where
  "from_bam p annotation bam =
     (case build_gene_index annotation of
        Inl e \<Rightarrow> Inl e
      | Inr gene_id_to_index \<Rightarrow>
          (case scan_records p gene_id_to_index init_state bam of
             Inl e \<Rightarrow> Inl e
           | Inr s \<Rightarrow> finish gene_id_to_index s))"

section \<open>Persistence: \<^verbatim>\<open>save\<close>, \<open>load\<close>, \<open>merge_matrices\<close>, \<open>from_mtx\<close>\<close>

text \<open>
  The file system maps a path to the content of the file there. The formats of the
  libraries (\<^verbatim>\<open>scipy.sparse.save_npz\<close>, \<^verbatim>\<open>numpy.save\<close>, Matrix Market) are not
  part of this program and are taken to be lossless: a file written by a library
  function holds the value that was written, and its reader returns that value.
  Reading a missing file raises \<open>FileNotFoundError\<close>, reading a file of another format
  raises \<open>ValueError\<close>. A matrix file holds a matrix with the values of its own
  \<^verbatim>\<open>dtype\<close> \<open>'v\<close>; no function here casts them.
\<close>

datatype 'v file_content =
    Npz "'v csr_matrix"
  | Npy "string list"
  | Mtx "'v coo_matrix"
  | Text string

type_synonym 'v filesystem = "string \<Rightarrow> 'v file_content option"

definition save_npz :: "string \<Rightarrow> 'v csr_matrix \<Rightarrow> 'v filesystem \<Rightarrow> 'v filesystem" where
  "save_npz path m fs = fs(path \<mapsto> Npz m)"

definition np_save :: "string \<Rightarrow> string list \<Rightarrow> 'v filesystem \<Rightarrow> 'v filesystem" where
  "np_save path a fs = fs(path \<mapsto> Npy a)"

definition load_npz :: "'v filesystem \<Rightarrow> string \<Rightarrow> error + 'v csr_matrix" where
  "load_npz fs path = (case fs path of
                         None \<Rightarrow> Inl (FileNotFoundError path)
                       | Some (Npz m) \<Rightarrow> Inr m
                       | Some _ \<Rightarrow> Inl (ValueError path))"

definition np_load :: "'v filesystem \<Rightarrow> string \<Rightarrow> error + string list" where
  "np_load fs path = (case fs path of
                        None \<Rightarrow> Inl (FileNotFoundError path)
                      | Some (Npy a) \<Rightarrow> Inr a
                      | Some _ \<Rightarrow> Inl (ValueError path))"

definition mmread :: "'v filesystem \<Rightarrow> string \<Rightarrow> error + 'v coo_matrix" where
  "mmread fs path = (case fs path of
                       None \<Rightarrow> Inl (FileNotFoundError path)
                     | Some (Mtx c) \<Rightarrow> Inr c
                     | Some _ \<Rightarrow> Inl (ValueError path))"

text \<open>Lines 193 to 196: \<^verbatim>\<open>save\<close> writes the three files, in this order.\<close>

definition save :: "'v count_matrix \<Rightarrow> string \<Rightarrow> 'v filesystem \<Rightarrow> 'v filesystem" where
  "save self prefix fs =
     np_save (prefix @ ''_col_index.npy'') (col_index self)
       (np_save (prefix @ ''_row_index.npy'') (row_index self)
          (save_npz (prefix @ ''.npz'') (matrix self) fs))"

text \<open>Lines 198 to 203: \<^verbatim>\<open>load\<close> reads them back.\<close>

definition load :: "'v filesystem \<Rightarrow> string \<Rightarrow> error + 'v count_matrix" where
  "load fs prefix =
     (case load_npz fs (prefix @ ''.npz'') of
        Inl e \<Rightarrow> Inl e
      | Inr m \<Rightarrow>
          (case np_load fs (prefix @ ''_row_index.npy'') of
             Inl e \<Rightarrow> Inl e
           | Inr rows \<Rightarrow>
               (case np_load fs (prefix @ ''_col_index.npy'') of
                  Inl e \<Rightarrow> Inl e
                | Inr cols \<Rightarrow> Inr \<lparr> matrix = m, row_index = rows, col_index = cols \<rparr>)))"

text \<open>A list comprehension over a function that may raise stops at the first exception.\<close>

fun comprehension :: "('a \<Rightarrow> error + 'b) \<Rightarrow> 'a list \<Rightarrow> error + 'b list" where
  "comprehension f [] = Inr []"
| "comprehension f (x # xs) =
     (case f x of
        Inl e \<Rightarrow> Inl e
      | Inr y \<Rightarrow> (case comprehension f xs of Inl e \<Rightarrow> Inl e | Inr ys \<Rightarrow> Inr (y # ys)))"

text \<open>
  \<^verbatim>\<open>scipy.sparse.vstack(matrices, format='csr')\<close> stacks the blocks row-wise; it raises
  \<open>ValueError\<close> for an empty list of blocks and for blocks whose numbers of columns differ.
\<close>

definition vstack :: "'v csr_matrix list \<Rightarrow> error + 'v csr_matrix" where
  "vstack matrices =
     (case matrices of
        [] \<Rightarrow> Inl (ValueError ''blocks must be 2-D'')
      | m # ms \<Rightarrow>
          if \<exists>b \<in> set ms. n_cols b \<noteq> n_cols m
          then Inl (ValueError ''incompatible dimensions'')
          else Inr \<lparr> csr_rows = concat (map csr_rows matrices), n_cols = n_cols m \<rparr>)"

text \<open>\<^verbatim>\<open>np.concatenate\<close> of label arrays; it raises \<open>ValueError\<close> for an empty list.\<close>

definition np_concatenate :: "string list list \<Rightarrow> error + string list" where
  "np_concatenate arrays =
     (if arrays = [] then Inl (ValueError ''need at least one array to concatenate'')
      else Inr (concat arrays))"

text \<open>Lines 205 to 215.\<close>

definition merge_matrices :: "'v filesystem \<Rightarrow> string list \<Rightarrow> error + 'v count_matrix" where
  "merge_matrices fs input_prefixes =
     (case comprehension (\<lambda>p. np_load fs (p @ ''_col_index.npy'')) input_prefixes of
        Inl e \<Rightarrow> Inl e
      | Inr col_indices \<Rightarrow>
     (case comprehension (\<lambda>p. np_load fs (p @ ''_row_index.npy'')) input_prefixes of
        Inl e \<Rightarrow> Inl e
      | Inr row_indices \<Rightarrow>
     (case comprehension (\<lambda>p. load_npz fs (p @ ''.npz'')) input_prefixes of
        Inl e \<Rightarrow> Inl e
      | Inr matrices \<Rightarrow>
     (case vstack matrices of
        Inl e \<Rightarrow> Inl e
      | Inr m \<Rightarrow>
     (case col_indices of
        [] \<Rightarrow> Inl IndexError
      | col_index0 # _ \<Rightarrow>
     (case np_concatenate row_indices of
        Inl e \<Rightarrow> Inl e
      | Inr rows \<Rightarrow> Inr \<lparr> matrix = m, row_index = rows, col_index = col_index0 \<rparr>))))))"

text \<open>
  A text file opened with mode \<^verbatim>\<open>'r'\<close> is read with universal newlines: \<^verbatim>\<open>\r\n\<close> and
  a lone \<^verbatim>\<open>\r\<close> arrive as \<^verbatim>\<open>\n\<close>. \<^verbatim>\<open>readlines()\<close> cuts the text after each newline
  and keeps the newline in the line.
\<close>

abbreviation LF :: char where "LF \<equiv> CHR 0x0A"
abbreviation CR :: char where "CR \<equiv> CHR 0x0D"

fun universal_newlines :: "string \<Rightarrow> string" where
  "universal_newlines [] = []"
| "universal_newlines [c] = [if c = CR then LF else c]"
| "universal_newlines (c # d # cs) =
     (if c = CR \<and> d = LF then LF # universal_newlines cs
      else if c = CR then LF # universal_newlines (d # cs)
      else c # universal_newlines (d # cs))"

fun split_lines :: "string \<Rightarrow> string list" where
  "split_lines [] = []"
| "split_lines (c # cs) =
     (if c = LF then [c] # split_lines cs
      else (case split_lines cs of
              [] \<Rightarrow> [[c]]
            | l # ls \<Rightarrow> (c # l) # ls))"

definition readlines :: "'v filesystem \<Rightarrow> string \<Rightarrow> error + string list" where
  "readlines fs path = (case fs path of
                          None \<Rightarrow> Inl (FileNotFoundError path)
                        | Some (Text t) \<Rightarrow> Inr (split_lines (universal_newlines t))
                        | Some _ \<Rightarrow> Inl (ValueError path))"

text \<open>
  Lines 235 to 240. The matrix keeps the values that \<^verbatim>\<open>mmread\<close> returns, and each label
  array is \<^verbatim>\<open>np.array\<close> of the lines.
\<close>

definition from_mtx ::
  "('v::monoid_add) filesystem \<Rightarrow> string \<Rightarrow> string \<Rightarrow> string \<Rightarrow> error + 'v count_matrix" where
  "from_mtx fs matrix_mtx row_index_file col_index_file =
     (case mmread fs matrix_mtx of
        Inl e \<Rightarrow> Inl e
      | Inr c \<Rightarrow>
          (case readlines fs row_index_file of
             Inl e \<Rightarrow> Inl e
           | Inr rows \<Rightarrow>
               (case readlines fs col_index_file of
                  Inl e \<Rightarrow> Inl e
                | Inr cols \<Rightarrow>
                    Inr \<lparr> matrix = tocsr c, row_index = np_array rows,
                          col_index = np_array cols \<rparr>)))"

section \<open>The vocabulary of the specification\<close>

text \<open>
  A record is dropped when it lacks one of the three tags or its mapping quality is
  below the threshold; otherwise it is valid, and \<open>molecule_of\<close> is its
  (gene, cell, molecule) triple.
\<close>

definition dropped :: "params \<Rightarrow> sam_record \<Rightarrow> bool" where
  "dropped p r \<longleftrightarrow>
     map_of (tags r) (cell_barcode_tag p) = None \<or>
     map_of (tags r) (molecule_barcode_tag p) = None \<or>
     map_of (tags r) (gene_id_tag p) = None \<or>
     mapping_quality r < mapq_threshold p"

definition molecule_of :: "params \<Rightarrow> sam_record \<Rightarrow> (string \<times> string \<times> string) option" where
  "molecule_of p r =
     (if dropped p r then None
      else Some (the (map_of (tags r) (gene_id_tag p)),
                 the (map_of (tags r) (cell_barcode_tag p)),
                 the (map_of (tags r) (molecule_barcode_tag p))))"

text \<open>
  The counted molecules of a stream: the triples of its valid records, each run of
  adjacent equal triples taken once. The first argument is the triple counted last.
\<close>

fun counted :: "(string \<times> string \<times> string) option \<Rightarrow> (string \<times> string \<times> string) list
                  \<Rightarrow> (string \<times> string \<times> string) list" where
  "counted current [] = []"
| "counted current (k # ks) =
     (if current = Some k then counted current ks else k # counted (Some k) ks)"

definition counted_molecules :: "params \<Rightarrow> sam_record list \<Rightarrow> (string \<times> string \<times> string) list" where
  "counted_molecules p bam = counted None (List.map_filter (molecule_of p) bam)"

text \<open>The triples of the valid records of a stream, in stream order.\<close>

definition valid_molecules :: "params \<Rightarrow> sam_record list \<Rightarrow> (string \<times> string \<times> string) list" where
  "valid_molecules p bam = List.map_filter (molecule_of p) bam"

definition cell_of :: "string \<times> string \<times> string \<Rightarrow> string" where
  "cell_of k = fst (snd k)"

text \<open>The distinct elements of a sequence in the order of their first occurrence.\<close>

fun first_seen_from :: "'a list \<Rightarrow> 'a list \<Rightarrow> 'a list" where
  "first_seen_from seen [] = seen"
| "first_seen_from seen (x # xs) =
     (if x \<in> set seen then first_seen_from seen xs else first_seen_from (seen @ [x]) xs)"

definition first_seen :: "'a list \<Rightarrow> 'a list" where
  "first_seen xs = first_seen_from [] xs"

text \<open>The coordinate entries of a scan state, and how many of them target a coordinate.\<close>

definition entries :: "scan_state \<Rightarrow> (nat \<times> nat) list" where
  "entries s = zip (cell_indices s) (gene_indices s)"

definition entry_count :: "scan_state \<Rightarrow> nat \<times> nat \<Rightarrow> nat" where
  "entry_count s q = count_list (entries s) q"

text \<open>
  The count that a matrix holds for a (row, column) pair: the value stored there, and 0
  for a row that the matrix does not have (yet).
\<close>

definition count_at :: "('v::zero) csr_matrix \<Rightarrow> nat \<Rightarrow> nat \<Rightarrow> 'v" where
  "count_at m i j = (if i < length (csr_rows m) then csr_get m i j else 0)"

text \<open>The row that a cell has, or gets when it is new, in a scan state.\<close>

definition row_of :: "scan_state \<Rightarrow> string \<Rightarrow> nat" where
  "row_of s cell = fst (lookup_cell s cell)"

text \<open>
  What the loop maintains: the three coordinate lists have one length, every datum is 1,
  the cells have the row numbers \<open>0, 1, ...\<close> in the order of the dictionary, every row
  coordinate is the row of a cell, there are no more cells than entries, and the gene of
  the current molecule is in the gene index.
\<close>

definition scan_invariant :: "nat dict \<Rightarrow> scan_state \<Rightarrow> bool" where
  "scan_invariant g s \<longleftrightarrow>
     length (gene_indices s) = length (cell_indices s) \<and>
     length (data s) = length (cell_indices s) \<and>
     set (data s) \<subseteq> {1} \<and>
     map snd (cell_id_to_index s) = [0 ..< n_cells s] \<and>
     (\<forall>i \<in> set (cell_indices s). i < n_cells s) \<and>
     n_cells s \<le> length (cell_indices s) \<and>
     (case current_molecule s of
        None \<Rightarrow> True
      | Some k \<Rightarrow> map_of g (fst k) \<noteq> None)"

text \<open>A gene index is dense when its values are exactly the numbers below its size.\<close>

definition dense :: "nat dict \<Rightarrow> bool" where
  "dense d \<longleftrightarrow> bij_betw (\<lambda>k. the (map_of d k)) (fst ` set d) {0 ..< length d}"

section \<open>Concrete inputs\<close>

definition gene_only :: sam_record where
  "gene_only = \<lparr> tags = [(''GE'', ''GeneC'')], mapping_quality = 30 \<rparr>"

definition gene_record :: "string \<Rightarrow> gtf_record" where
  "gene_record name = \<lparr> feature_type = ''gene'', attributes = [(''gene_name'', name)] \<rparr>"

definition tagged :: "string \<Rightarrow> string \<Rightarrow> string \<Rightarrow> int \<Rightarrow> sam_record" where
  "tagged gene cell molecule q =
     \<lparr> tags = [(''GE'', gene), (''CB'', cell), (''UB'', molecule)], mapping_quality = q \<rparr>"

text \<open>The scenario of the specification: two genes, four records, three molecules.\<close>

definition scenario_annotation :: "gtf_record list" where
  "scenario_annotation = [gene_record ''GeneA'', gene_record ''GeneB'']"

definition scenario_bam :: "sam_record list" where
  "scenario_bam = [tagged ''GeneA'' ''CellX'' ''Mol1'' 30, tagged ''GeneA'' ''CellX'' ''Mol1'' 30,
                   tagged ''GeneB'' ''CellX'' ''Mol2'' 30, tagged ''GeneA'' ''CellY'' ''Mol3'' 30]"

definition scenario_gene_index :: "nat dict" where
  "scenario_gene_index = [(''GeneA'', 0), (''GeneB'', 1)]"

text \<open>
  A stream in which a record below a mapping-quality threshold of 10 stands between two
  records of one molecule.
\<close>

definition strict_params :: params where
  "strict_params = default_params\<lparr> mapq_threshold := 10 \<rparr>"

definition interrupted_bam :: "sam_record list" where
  "interrupted_bam = [tagged ''GeneA'' ''CellX'' ''Mol1'' 30, tagged ''GeneB'' ''CellX'' ''Mol2'' 5,
                      tagged ''GeneA'' ''CellX'' ''Mol1'' 30]"

text \<open>
  With the threshold 10, a prefix that ends with a dropped record, after a record of
  the molecule (GeneA, CellX, Mol1), and a run of two contiguous valid records of that
  molecule.
\<close>

definition low_quality_prefix :: "sam_record list" where
  "low_quality_prefix = [tagged ''GeneA'' ''CellX'' ''Mol1'' 30, tagged ''GeneB'' ''CellX'' ''Mol2'' 5]"

definition duplicate_run :: "sam_record list" where
  "duplicate_run = [tagged ''GeneA'' ''CellX'' ''Mol1'' 30, tagged ''GeneA'' ''CellX'' ''Mol1'' 30]"

definition one_molecule :: "32 word count_matrix" where
  "one_molecule = \<lparr> matrix = \<lparr> csr_rows = [[(0, 1)]], n_cols = 2 \<rparr>,
                     row_index = [''CellX''], col_index = [''GeneA'', ''GeneB''] \<rparr>"

text \<open>
  A run of two different records of one molecule, after a record of another molecule;
  and two records of one molecule with two records between them, one dropped for its
  missing tags and one valid.
\<close>

definition other_molecule :: "sam_record list" where
  "other_molecule = [tagged ''GeneB'' ''CellX'' ''Mol2'' 30]"

definition mixed_quality_run :: "sam_record list" where
  "mixed_quality_run = [tagged ''GeneA'' ''CellX'' ''Mol1'' 30, tagged ''GeneA'' ''CellX'' ''Mol1'' 40]"

definition other_molecule_result :: "32 word count_matrix" where
  "other_molecule_result = \<lparr> matrix = \<lparr> csr_rows = [[(1, 1)]], n_cols = 2 \<rparr>,
                              row_index = [''CellX''], col_index = [''GeneA'', ''GeneB''] \<rparr>"

definition between_records :: "sam_record list" where
  "between_records = [gene_only, tagged ''GeneB'' ''CellY'' ''Mol2'' 30]"

definition before_second_result :: "32 word count_matrix" where
  "before_second_result = \<lparr> matrix = \<lparr> csr_rows = [[(0, 1)], [(1, 1)]], n_cols = 2 \<rparr>,
                             row_index = [''CellX'', ''CellY''], col_index = [''GeneA'', ''GeneB''] \<rparr>"

text \<open>Cells in the stream order c2, c1, c2, c3, each record a molecule of its own.\<close>

definition first_seen_bam :: "sam_record list" where
  "first_seen_bam = [tagged ''GeneA'' ''c2'' ''m1'' 30, tagged ''GeneB'' ''c1'' ''m2'' 30,
                     tagged ''GeneB'' ''c2'' ''m3'' 30, tagged ''GeneA'' ''c3'' ''m4'' 30]"

definition first_seen_result :: "32 word count_matrix" where
  "first_seen_result =
     \<lparr> matrix = \<lparr> csr_rows = [[(0, 1), (1, 1)], [(1, 1)], [(0, 1)], []], n_cols = 2 \<rparr>,
       row_index = [''c2'', ''c1'', ''c3''], col_index = [''GeneA'', ''GeneB''] \<rparr>"

text \<open>Two matrices of shapes (2, 2) and (3, 2) over the same genes, saved under two prefixes.\<close>

definition example_a :: "32 word count_matrix" where
  "example_a = \<lparr> matrix = \<lparr> csr_rows = [[(0, 1)], [(1, 2)]], n_cols = 2 \<rparr>,
                  row_index = [''c1'', ''c2''], col_index = [''GeneA'', ''GeneB''] \<rparr>"

definition example_b :: "32 word count_matrix" where
  "example_b = \<lparr> matrix = \<lparr> csr_rows = [[], [(0, 3)], [(0, 1), (1, 1)]], n_cols = 2 \<rparr>,
                  row_index = [''c3'', ''c4'', ''c5''], col_index = [''GeneA'', ''GeneB''] \<rparr>"

definition example_fs :: "32 word filesystem" where
  "example_fs = save example_b ''b'' (save example_a ''a'' (\<lambda>path. None))"

text \<open>
  A Matrix Market import whose label files hold the lines c2, c1, c3 and GeneA, GeneB,
  the last line of each file without a newline at its end.
\<close>

definition mtx_fs :: "int filesystem" where
  "mtx_fs = (\<lambda>path. None)
     (''matrix.mtx'' \<mapsto> Mtx \<lparr> coo_shape = (3, 2), coo_data = [1], coo_row = [0], coo_col = [0] \<rparr>,
      ''rows.txt'' \<mapsto> Text (''c2'' @ [LF] @ ''c1'' @ [LF] @ ''c3''),
      ''cols.txt'' \<mapsto> Text (''GeneA'' @ [LF] @ ''GeneB''))"

text \<open>The same import from label files whose last lines end with a newline.\<close>

definition terminated_fs :: "int filesystem" where
  "terminated_fs = (\<lambda>path. None)
     (''matrix.mtx'' \<mapsto> Mtx \<lparr> coo_shape = (3, 1), coo_data = [1], coo_row = [0], coo_col = [0] \<rparr>,
      ''rows.txt'' \<mapsto> Text (''c2'' @ [LF] @ ''c1'' @ [LF] @ ''c3'' @ [LF]),
      ''cols.txt'' \<mapsto> Text (''GeneA'' @ [LF]))"

definition terminated_import :: "int count_matrix" where
  "terminated_import =
     \<lparr> matrix = \<lparr> csr_rows = [[(0, 1)], [], []], n_cols = 1 \<rparr>,
       row_index = [''c2'' @ [LF], ''c1'' @ [LF], ''c3'' @ [LF]],
       col_index = [''GeneA'' @ [LF]] \<rparr>"

definition mtx_import :: "int count_matrix" where
  "mtx_import =
     \<lparr> matrix = \<lparr> csr_rows = [[(0, 1)], [], []], n_cols = 2 \<rparr>,
       row_index = [''c2'' @ [LF], ''c1'' @ [LF], ''c3''],
       col_index = [''GeneA'' @ [LF], ''GeneB''] \<rparr>"

text \<open>An annotation in which two gene records carry the same name.\<close>

definition duplicate_annotation :: "gtf_record list" where
  "duplicate_annotation = [gene_record ''GeneA'', gene_record ''GeneB'', gene_record ''GeneA'']"

section \<open>The scan over the alignment records\<close>

lemma scan_records_append:
  "scan_records p g s (xs @ ys) =
     (case scan_records p g s xs of Inl e \<Rightarrow> Inl e | Inr s' \<Rightarrow> scan_records p g s' ys)"
  by (induction xs arbitrary: s) (auto split: sum.splits)

lemma process_record_dropped: "dropped p r \<Longrightarrow> process_record p g s r = Inr s"
  by (auto simp: dropped_def process_record_def get_molecule_def get_tag_def
           split: option.splits sum.splits)

lemma scan_records_dropped:
  "dropped p r \<Longrightarrow> scan_records p g s (pre @ r # post) = scan_records p g s (pre @ post)"
  by (simp add: scan_records_append process_record_dropped split: sum.splits)

lemma process_record_molecule:
  "process_record p g s r =
     (case molecule_of p r of
        None \<Rightarrow> Inr s
      | Some k \<Rightarrow> if current_molecule s = Some k then Inr s else count_molecule g s k)"
  by (auto simp: process_record_def molecule_of_def dropped_def get_molecule_def get_tag_def
           split: option.splits sum.splits)

lemma row_of_eq:
  "row_of s cell = (case map_of (cell_id_to_index s) cell of None \<Rightarrow> n_cells s | Some i \<Rightarrow> i)"
  by (simp add: row_of_def lookup_cell_def dict_get_def split: option.splits)

lemma update_fresh: "k \<notin> fst ` set al \<Longrightarrow> AList.update k v al = al @ [(k, v)]"
  by (induction al) auto

lemma count_molecule_Inr:
  assumes "map_of g gene = Some j"
  shows "count_molecule g s (gene, cell, molecule) =
     Inr \<lparr> data = data s @ [1],
           cell_indices = cell_indices s @ [row_of s cell],
           gene_indices = gene_indices s @ [j],
           n_cells = (if cell \<in> fst ` set (cell_id_to_index s) then n_cells s else n_cells s + 1),
           cell_id_to_index = (if cell \<in> fst ` set (cell_id_to_index s) then cell_id_to_index s
                               else cell_id_to_index s @ [(cell, n_cells s)]),
           current_molecule = Some (gene, cell, molecule) \<rparr>"
proof (cases "map_of (cell_id_to_index s) cell")
  case None
  then have "cell \<notin> fst ` set (cell_id_to_index s)"
    by (simp add: map_of_eq_None_iff)
  with None assms show ?thesis
    by (simp add: count_molecule_def dict_get_def lookup_cell_def row_of_def update_fresh)
next
  case (Some i)
  then have "cell \<in> fst ` set (cell_id_to_index s)"
    by (metis map_of_eq_None_iff option.distinct(1))
  with Some assms show ?thesis
    by (simp add: count_molecule_def dict_get_def lookup_cell_def row_of_def)
qed

lemma count_molecule_Inl:
  "map_of g gene = None \<Longrightarrow> count_molecule g s (gene, cell, molecule) = Inl (KeyError gene)"
  by (simp add: count_molecule_def dict_get_def)

lemma count_molecule_cases:
  "count_molecule g s (gene, cell, molecule) = Inr s' \<Longrightarrow> \<exists>j. map_of g gene = Some j"
  "count_molecule g s (gene, cell, molecule) = Inl e \<Longrightarrow> e = KeyError gene \<and> map_of g gene = None"
  by (cases "map_of g gene"; simp add: count_molecule_Inl count_molecule_Inr)+

lemma row_of_bound:
  assumes "map snd (cell_id_to_index s) = [0 ..< n_cells s]"
  shows "row_of s cell < (if cell \<in> fst ` set (cell_id_to_index s) then n_cells s
                         else n_cells s + 1)"
proof (cases "map_of (cell_id_to_index s) cell")
  case None
  then have "cell \<notin> fst ` set (cell_id_to_index s)" by (simp add: map_of_eq_None_iff)
  with None show ?thesis by (simp add: row_of_eq)
next
  case (Some i)
  then have "(cell, i) \<in> set (cell_id_to_index s)" by (rule map_of_SomeD)
  then have "i \<in> set (map snd (cell_id_to_index s))" and "cell \<in> fst ` set (cell_id_to_index s)"
    by force+
  with Some show ?thesis by (simp add: row_of_eq assms)
qed

lemma count_molecule_invariant:
  assumes "scan_invariant g s" "count_molecule g s k = Inr s'"
  shows "scan_invariant g s'"
proof -
  obtain gene cell molecule where k: "k = (gene, cell, molecule)" by (cases k) auto
  with assms(2) obtain j where j: "map_of g gene = Some j"
    using count_molecule_cases(1) by blast
  have row: "row_of s cell < (if cell \<in> fst ` set (cell_id_to_index s) then n_cells s
                              else n_cells s + 1)"
    using row_of_bound [of s cell] assms(1) by (simp add: scan_invariant_def)
  from assms row show ?thesis
    unfolding k count_molecule_Inr [OF j]
    by (auto simp: scan_invariant_def j less_Suc_eq)
qed

lemma process_record_invariant:
  "scan_invariant g s \<Longrightarrow> process_record p g s r = Inr s' \<Longrightarrow> scan_invariant g s'"
  by (auto simp: process_record_molecule count_molecule_invariant split: option.splits if_splits)

lemma scan_records_invariant:
  "scan_invariant g s \<Longrightarrow> scan_records p g s rs = Inr s' \<Longrightarrow> scan_invariant g s'"
  by (induction rs arbitrary: s) (auto split: sum.splits dest: process_record_invariant)

lemma init_state_invariant: "scan_invariant g init_state"
  by (simp add: scan_invariant_def init_state_def)

lemma entries_snoc:
  "length (gene_indices s) = length (cell_indices s) \<Longrightarrow>
   entries (s\<lparr> cell_indices := cell_indices s @ [i], gene_indices := gene_indices s @ [j] \<rparr>)
     = entries s @ [(i, j)]"
  by (simp add: entries_def)

lemma count_molecule_entries:
  assumes "scan_invariant g s" "map_of g gene = Some j"
  shows "\<exists>s'. count_molecule g s (gene, cell, molecule) = Inr s' \<and>
              entries s' = entries s @ [(row_of s cell, j)] \<and>
              map_of (cell_id_to_index s') cell = Some (row_of s cell) \<and>
              current_molecule s' = Some (gene, cell, molecule) \<and>
              (\<forall>c i. map_of (cell_id_to_index s) c = Some i \<longrightarrow> map_of (cell_id_to_index s') c = Some i)"
proof -
  have len: "length (gene_indices s) = length (cell_indices s)"
    using assms(1) by (simp add: scan_invariant_def)
  show ?thesis
    unfolding count_molecule_Inr [OF assms(2)]
    using len
    by (auto simp: entries_def row_of_eq map_of_eq_None_iff map_add_Some_iff
             split: option.splits)
qed

lemma row_of_known: "map_of (cell_id_to_index s) cell = Some i \<Longrightarrow> row_of s cell = i"
  by (simp add: row_of_eq)

lemma scan_records_unknown_gene:
  assumes "scan_invariant g s" "r \<in> set rs" "molecule_of p r = Some (gene, cell, molecule)"
    "map_of g gene = None"
  shows "\<exists>gene'. scan_records p g s rs = Inl (KeyError gene') \<and> map_of g gene' = None"
  using assms(1,2)
proof (induction rs arbitrary: s)
  case Nil
  then show ?case by simp
next
  case (Cons r' rs)
  show ?case
  proof (cases "molecule_of p r'")
    case None
    with assms(3) have "r \<noteq> r'" by auto
    with Cons.prems have "r \<in> set rs" by simp
    from Cons.IH [OF Cons.prems(1) this] None show ?thesis
      by (simp add: process_record_molecule)
  next
    case (Some k')
    obtain gene' cell' molecule' where k': "k' = (gene', cell', molecule')" by (cases k') auto
    show ?thesis
    proof (cases "current_molecule s = Some k'")
      case True
      with Cons.prems(1) have "map_of g gene' \<noteq> None"
        by (simp add: scan_invariant_def k')
      with assms(3,4) Some k' have "r \<noteq> r'" by auto
      with Cons.prems have "r \<in> set rs" by simp
      from Cons.IH [OF Cons.prems(1) this] Some True show ?thesis
        by (simp add: process_record_molecule)
    next
      case False
      show ?thesis
      proof (cases "count_molecule g s k'")
        case (Inl e)
        then have "e = KeyError gene' \<and> map_of g gene' = None"
          using count_molecule_cases(2) k' by blast
        with Inl Some False show ?thesis
          by (simp add: process_record_molecule)
      next
        case (Inr s1)
        then have "\<exists>j. map_of g gene' = Some j"
          using count_molecule_cases(1) k' by blast
        with assms(3,4) Some k' have "r \<noteq> r'" by auto
        with Cons.prems have "r \<in> set rs" by simp
        from Cons.IH [OF count_molecule_invariant [OF Cons.prems(1) Inr] this] Some False Inr
        show ?thesis
          by (simp add: process_record_molecule)
      qed
    qed
  qed
qed

subsection \<open>From the coordinate entries to the matrix\<close>

lemma map_of_tabulate:
  "map_of (map (\<lambda>j. (j, f j)) xs) j = (if j \<in> set xs then Some (f j) else None)"
  by (induction xs) auto

lemma sum_of_ones:
  assumes "length rows = length cols" "length cols = length dat" "set dat \<subseteq> {1}"
  shows "sum_list [d. (r, k, d) \<leftarrow> zip rows (zip cols (map of_nat dat)), r = i \<and> k = j]
           = (of_nat (count_list (zip rows cols) (i, j)) :: 32 word)"
  using assms
proof (induction rows cols dat rule: list_induct3)
  case Nil
  show ?case by simp
next
  case (Cons r rs c cs d ds)
  then show ?case by auto
qed

lemma stored_column_iff:
  assumes "length rows = length cols" "length cols = length dat"
  shows "j \<in> set [k. (r, k, d) \<leftarrow> zip rows (zip cols dat), r = i] \<longleftrightarrow> (i, j) \<in> set (zip rows cols)"
  using assms
proof (induction rows cols dat rule: list_induct3)
  case Nil
  show ?case by simp
next
  case (Cons r rs c cs d ds)
  then show ?case by auto
qed

lemma finish_value:
  assumes inv: "scan_invariant g s" and fin: "finish g s = Inr M"
    and i: "i < length (cell_indices s)"
  shows "csr_get (matrix M) i j = of_nat (entry_count s (i, j))"
proof -
  let ?c = "\<lparr> coo_shape = (length (cell_indices s), length g),
               coo_data = (map of_nat (data s) :: 32 word list),
               coo_row = cell_indices s, coo_col = gene_indices s \<rparr>"
  define stored where "stored = [k. (r, k, d) \<leftarrow> coo_entries ?c, r = i]"
  have len: "length (cell_indices s) = length (gene_indices s)"
       "length (gene_indices s) = length (data s)" and ones: "set (data s) \<subseteq> {1}"
    using inv by (simp_all add: scan_invariant_def)
  have len': "length (gene_indices s) = length (map (of_nat :: nat \<Rightarrow> 32 word) (data s))"
    using len by simp
  have ce: "coo_entries ?c = zip (cell_indices s) (zip (gene_indices s) (map of_nat (data s)))"
    by (simp add: coo_entries_def)
  have M: "matrix M = tocsr ?c"
    using fin by (auto simp: finish_def new_coo_matrix_def Let_def split: if_splits)
  have row: "csr_rows (tocsr ?c) ! i = map (\<lambda>j. (j, coo_sum ?c i j)) (sort (remdups stored))"
    using i by (simp add: tocsr_def stored_def)
  have sum: "coo_sum ?c i j = of_nat (entry_count s (i, j))"
    unfolding coo_sum_def ce entry_count_def entries_def
    by (rule sum_of_ones [OF len ones])
  have "j \<in> set stored \<longleftrightarrow> (i, j) \<in> set (entries s)"
    unfolding stored_def ce entries_def by (rule stored_column_iff [OF len(1) len'])
  then have mem: "j \<in> set (sort (remdups stored)) \<longleftrightarrow> (i, j) \<in> set (entries s)"
    by simp
  have get: "csr_get (matrix M) i j
               = (if (i, j) \<in> set (entries s) then of_nat (entry_count s (i, j)) else 0)"
    unfolding csr_get_def M row map_of_tabulate mem sum by simp
  show ?thesis
  proof (cases "(i, j) \<in> set (entries s)")
    case True
    then show ?thesis by (simp add: get)
  next
    case False
    then have "entry_count s (i, j) = 0"
      by (simp add: entry_count_def count_list_0_iff)
    with False show ?thesis by (simp add: get)
  qed
qed

subsection \<open>When \<^verbatim>\<open>from_bam\<close> returns a matrix\<close>

lemma keys_by_value_dense:
  assumes "map snd d = [0 ..< n]"
  shows "keys_by_value d = map fst d"
proof -
  have "sorted (map snd d)" by (simp add: assms)
  then show ?thesis
    by (simp add: keys_by_value_def sort_key_id_if_sorted)
qed

lemma dense_dict_zip:
  assumes "map snd d = [0 ..< n]"
  shows "zip (map fst d) [0 ..< length (map fst d)] = d"
proof -
  have "length d = n" using arg_cong [OF assms, of length] by simp
  then have "[0 ..< length (map fst d)] = map snd d" using assms by simp
  then show ?thesis by (simp only: zip_map_fst_snd)
qed


lemma scan_records_same_molecule:
  "\<forall>r \<in> set rs. molecule_of p r = Some k \<Longrightarrow> current_molecule s = Some k \<Longrightarrow>
   scan_records p g s rs = Inr s"
  by (induction rs) (simp_all add: process_record_molecule)

lemma process_record_current:
  assumes "process_record p g s r = Inr s'"
  shows "current_molecule s' = (case molecule_of p r of None \<Rightarrow> current_molecule s | Some k \<Rightarrow> Some k)"
proof (cases "molecule_of p r")
  case None
  with assms show ?thesis by (simp add: process_record_molecule)
next
  case (Some k)
  obtain gene cell molecule where k: "k = (gene, cell, molecule)" by (cases k) auto
  show ?thesis
  proof (cases "current_molecule s = Some k")
    case True
    with Some assms show ?thesis by (simp add: process_record_molecule)
  next
    case False
    with Some assms have c: "count_molecule g s k = Inr s'"
      by (simp add: process_record_molecule)
    then obtain j where j: "map_of g gene = Some j"
      using count_molecule_cases(1) k by blast
    from c show ?thesis
      unfolding k count_molecule_Inr [OF j] using Some k by auto
  qed
qed

lemma scan_records_current:
  "scan_records p g s rs = Inr s' \<Longrightarrow>
   current_molecule s' = (if valid_molecules p rs = [] then current_molecule s
                          else Some (last (valid_molecules p rs)))"
proof (induction rs arbitrary: s)
  case Nil
  then show ?case by (simp add: valid_molecules_def map_filter_simps)
next
  case (Cons r rs)
  from Cons.prems obtain s1 where s1: "process_record p g s r = Inr s1"
    and rest: "scan_records p g s1 rs = Inr s'"
    by (auto split: sum.splits)
  from Cons.IH [OF rest] process_record_current [OF s1] show ?case
    by (auto simp: valid_molecules_def map_filter_simps split: option.splits)
qed

lemma process_record_grows:
  assumes "process_record p g s r = Inr s'"
  shows "(\<forall>c i. map_of (cell_id_to_index s) c = Some i \<longrightarrow> map_of (cell_id_to_index s') c = Some i) \<and>
         set (gene_indices s) \<subseteq> set (gene_indices s')"
proof (cases "molecule_of p r")
  case None
  with assms show ?thesis by (simp add: process_record_molecule)
next
  case (Some k)
  obtain gene cell molecule where k: "k = (gene, cell, molecule)" by (cases k) auto
  show ?thesis
  proof (cases "current_molecule s = Some k")
    case True
    with Some assms show ?thesis by (simp add: process_record_molecule)
  next
    case False
    with Some assms have c: "count_molecule g s k = Inr s'"
      by (simp add: process_record_molecule)
    then obtain j where j: "map_of g gene = Some j"
      using count_molecule_cases(1) k by blast
    from c show ?thesis
      unfolding k count_molecule_Inr [OF j]
      by (auto simp: map_add_Some_iff map_of_eq_None_iff)
  qed
qed

lemma scan_records_grows:
  "scan_records p g s rs = Inr s' \<Longrightarrow>
   (\<forall>c i. map_of (cell_id_to_index s) c = Some i \<longrightarrow> map_of (cell_id_to_index s') c = Some i) \<and>
   set (gene_indices s) \<subseteq> set (gene_indices s')"
proof (induction rs arbitrary: s)
  case Nil
  then show ?case by simp
next
  case (Cons r rs)
  from Cons.prems obtain s1 where s1: "process_record p g s r = Inr s1"
    and rest: "scan_records p g s1 rs = Inr s'"
    by (auto split: sum.splits)
  from Cons.IH [OF rest] process_record_grows [OF s1] show ?case by blast
qed

lemma finish_succeeds:
  assumes "scan_invariant g s" "\<forall>j \<in> set (gene_indices s). j < length g"
  shows "\<exists>M. finish g s = Inr M"
proof -
  have "\<forall>i \<in> set (cell_indices s). i < length (cell_indices s)"
    using assms(1) by (auto simp: scan_invariant_def)
  with assms show ?thesis
    by (simp add: finish_def new_coo_matrix_def Let_def scan_invariant_def)
qed

lemma finish_columns:
  assumes "scan_invariant g s" "finish g s = Inr M"
  shows "\<forall>j \<in> set (gene_indices s). j < length g"
proof (cases "data s = []")
  case True
  with assms(1) have "length (gene_indices s) = 0" by (simp add: scan_invariant_def)
  then have "gene_indices s = []" by simp
  then show ?thesis by simp
next
  case False
  with assms(2) show ?thesis
    by (auto simp: finish_def new_coo_matrix_def Let_def split: if_splits)
qed

lemma finish_rows:
  "finish g s = Inr M \<Longrightarrow> length (csr_rows (matrix M)) = length (cell_indices s)"
  by (auto simp: finish_def new_coo_matrix_def Let_def tocsr_def split: if_splits)

lemma finish_count_at:
  assumes inv: "scan_invariant g s" and fin: "finish g s = Inr M"
  shows "count_at (matrix M) i j = of_nat (entry_count s (i, j))"
proof (cases "i < length (cell_indices s)")
  case True
  with finish_value [OF inv fin True] finish_rows [OF fin] show ?thesis
    by (simp add: count_at_def)
next
  case False
  have "\<forall>i' \<in> set (cell_indices s). i' < length (cell_indices s)"
    using inv by (auto simp: scan_invariant_def)
  with False have "(i, j) \<notin> set (entries s)"
    by (auto simp: entries_def dest: set_zip_leftD)
  then have "entry_count s (i, j) = 0"
    by (simp add: entry_count_def count_list_0_iff)
  with False finish_rows [OF fin] show ?thesis
    by (simp add: count_at_def)
qed

lemma finish_row_label:
  assumes inv: "scan_invariant g s" and fin: "finish g s = Inr M"
    and c: "map_of (cell_id_to_index s) cell = Some i"
  shows "i < length (row_index M) \<and> row_index M ! i = cell"
proof -
  have dense: "map snd (cell_id_to_index s) = [0 ..< n_cells s]"
    using inv by (simp add: scan_invariant_def)
  have rows: "row_index M = map fst (cell_id_to_index s)"
    using fin keys_by_value_dense [OF dense]
    by (auto simp: finish_def Let_def split: sum.splits)
  from c have "(cell, i) \<in> set (cell_id_to_index s)" by (rule map_of_SomeD)
  then obtain n where n: "n < length (cell_id_to_index s)" "cell_id_to_index s ! n = (cell, i)"
    by (auto simp: in_set_conv_nth)
  then have "map snd (cell_id_to_index s) ! n = i" by simp
  moreover have "n < n_cells s" using n(1) arg_cong [OF dense, of length] by simp
  ultimately have "n = i" by (simp add: dense)
  with n show ?thesis by (simp add: rows)
qed

lemma from_bam_Inr_iff:
  "from_bam p annotation bam = Inr M \<longleftrightarrow>
     (\<exists>g s. build_gene_index annotation = Inr g \<and>
            scan_records p g init_state bam = Inr s \<and> finish g s = Inr M)"
  by (auto simp: from_bam_def split: sum.splits)

lemma count_run:
  assumes inv: "scan_invariant g s" and fin: "finish g s = Inr M"
    and run: "run \<noteq> []" "\<forall>r \<in> set run. molecule_of p r = Some (gene, cell, molecule)"
    and new: "current_molecule s \<noteq> Some (gene, cell, molecule)"
    and j: "map_of g gene = Some j" and jlt: "j < length g"
  shows "\<exists>s' M'. scan_records p g s run = Inr s' \<and> scan_invariant g s' \<and>
                finish g s' = Inr M' \<and>
                map_of (cell_id_to_index s') cell = Some (row_of s cell) \<and>
                current_molecule s' = Some (gene, cell, molecule) \<and>
                count_at (matrix M') (row_of s cell) j = count_at (matrix M) (row_of s cell) j + 1 \<and>
                (\<forall>i' j'. (i', j') \<noteq> (row_of s cell, j) \<longrightarrow>
                         count_at (matrix M') i' j' = count_at (matrix M) i' j')"
proof -
  from count_molecule_entries [OF inv j, of cell molecule]
  obtain s' where s': "count_molecule g s (gene, cell, molecule) = Inr s'"
    and e: "entries s' = entries s @ [(row_of s cell, j)]"
    and c: "map_of (cell_id_to_index s') cell = Some (row_of s cell)"
    and cur: "current_molecule s' = Some (gene, cell, molecule)"
    by blast
  have inv': "scan_invariant g s'" using count_molecule_invariant [OF inv s'] .
  from run obtain r rs where rrs: "run = r # rs" by (cases run) auto
  have "scan_records p g s' rs = Inr s'"
    using scan_records_same_molecule [of rs p "(gene, cell, molecule)" s' g] run(2) cur
    by (simp add: rrs)
  then have scan: "scan_records p g s run = Inr s'"
    using run(2) new s' by (simp add: rrs process_record_molecule)
  have "gene_indices s' = gene_indices s @ [j]"
    using s' unfolding count_molecule_Inr [OF j] by auto
  then have "\<forall>j' \<in> set (gene_indices s'). j' < length g"
    using finish_columns [OF inv fin] jlt by auto
  from finish_succeeds [OF inv' this] obtain M' where fin': "finish g s' = Inr M'" ..
  have one: "count_at (matrix M') (row_of s cell) j = count_at (matrix M) (row_of s cell) j + 1"
    by (simp add: finish_count_at [OF inv' fin'] finish_count_at [OF inv fin] entry_count_def e)
  have others: "\<forall>i' j'. (i', j') \<noteq> (row_of s cell, j) \<longrightarrow>
                         count_at (matrix M') i' j' = count_at (matrix M) i' j'"
    by (auto simp: finish_count_at [OF inv' fin'] finish_count_at [OF inv fin] entry_count_def e)
  from scan inv' fin' c cur one others show ?thesis by blast
qed

lemma valid_molecules_append:
  "valid_molecules p (xs @ ys) = valid_molecules p xs @ valid_molecules p ys"
  by (simp add: valid_molecules_def List.map_filter_def)

lemma valid_molecules_member:
  "x \<in> set bam \<Longrightarrow> molecule_of p x = Some k \<Longrightarrow> k \<in> set (valid_molecules p bam)"
  by (induction bam) (auto simp: valid_molecules_def split: option.splits)

lemma scan_records_current_init:
  assumes "scan_records p g init_state bam = Inr s"
    and "valid_molecules p bam = [] \<or> last (valid_molecules p bam) \<noteq> k"
  shows "current_molecule s \<noteq> Some k"
  using scan_records_current [OF assms(1)] assms(2)
  by (auto simp: init_state_def split: if_splits)

section \<open>Dropped records\<close>

text \<open>
  Claim C9. A record that lacks the cell, the molecule or the gene tag, or whose mapping
  quality is below the threshold, is dropped silently: wherever it stands in the stream,
  \<^verbatim>\<open>from_bam\<close> returns what it returns for the stream without it, be that a matrix or an
  error raised for another record. The record adds nothing and raises nothing.
\<close>

theorem dropped_record_is_ignored:
  "dropped p r \<Longrightarrow>
   from_bam p annotation (pre @ r # post) = from_bam p annotation (pre @ post)"
  by (simp add: from_bam_def scan_records_dropped split: sum.splits)

theorem dropped_record_is_ignored_witness:
  "dropped default_params gene_only \<and>
   from_bam default_params scenario_annotation ([] @ gene_only # scenario_bam) =
   from_bam default_params scenario_annotation ([] @ scenario_bam)"
proof -
  have h: "dropped default_params gene_only"
    by (simp add: dropped_def default_params_def gene_only_def)
  from dropped_record_is_ignored [OF h, of scenario_annotation "[]" scenario_bam] h
  show ?thesis by simp
qed

section \<open>Molecules are counted once per run\<close>

text \<open>
  A run of valid records can only be counted when its gene has a column of the matrix:
  \<^verbatim>\<open>from_bam\<close> raises \<open>KeyError\<close> for a gene that is not in the gene index, and
  \<open>ValueError\<close> for a gene whose index is not below the size of the index.
\<close>

lemma run_without_column_raises:
  "from_bam default_params scenario_annotation [tagged ''GeneC'' ''CellX'' ''Mol1'' 30]
     = Inl (KeyError ''GeneC'') \<and>
   build_gene_index duplicate_annotation = Inr [(''GeneA'', 2), (''GeneB'', 1)] \<and>
   from_bam default_params duplicate_annotation [tagged ''GeneA'' ''CellX'' ''Mol1'' 30]
     = Inl (ValueError ''column index exceeds matrix dimensions'')"
  by code_simp

text \<open>
  Claim C3, as stated, fails: with the threshold 10, a stream ends with two contiguous
  valid records of the molecule (GeneA, CellX, Mol1), and only a dropped record
  separates them from an earlier record of that molecule. The scan still holds the
  molecule as its current one, so the matrix is the same with and without the two
  records: the count of (CellX, GeneA) grows by 0, not by 1.
\<close>

theorem contiguous_duplicates_counterexample:
  "valid_molecules strict_params duplicate_run
     = [(''GeneA'', ''CellX'', ''Mol1''), (''GeneA'', ''CellX'', ''Mol1'')] \<and>
   from_bam strict_params scenario_annotation low_quality_prefix = Inr one_molecule \<and>
   from_bam strict_params scenario_annotation (low_quality_prefix @ duplicate_run) = Inr one_molecule \<and>
   count_at (matrix one_molecule) 0 0 = 1"
  by code_simp

text \<open>
  Claim C3, amended. Let \<^verbatim>\<open>from_bam\<close> return a matrix for a prefix of the stream, and let
  the stream continue with a non-empty run of contiguous valid records that all bear one
  (gene, cell, molecule) triple, where the last valid record of the prefix, if there is
  one, bears another triple, and the gene has the column \<open>j\<close> in the gene index, below
  the size of the index. Then \<^verbatim>\<open>from_bam\<close> returns a matrix for the prefix with the run,
  the cell labels a row \<open>i\<close> of it, and the count at \<open>(i, j)\<close> is the count in the
  prefix's matrix plus exactly 1, whatever the length of the run; every other count is
  the same in both matrices.
\<close>

theorem contiguous_duplicates_count_once:
  assumes g: "build_gene_index annotation = Inr g"
    and pre: "from_bam p annotation pre = Inr M"
    and run: "run \<noteq> []" "\<forall>r \<in> set run. molecule_of p r = Some (gene, cell, molecule)"
    and new: "valid_molecules p pre = [] \<or> last (valid_molecules p pre) \<noteq> (gene, cell, molecule)"
    and j: "map_of g gene = Some j" and jlt: "j < length g"
  shows "\<exists>M' i. from_bam p annotation (pre @ run) = Inr M' \<and>
               i < length (row_index M') \<and> row_index M' ! i = cell \<and>
               count_at (matrix M') i j = count_at (matrix M) i j + 1 \<and>
               (\<forall>i' j'. (i', j') \<noteq> (i, j) \<longrightarrow>
                        count_at (matrix M') i' j' = count_at (matrix M) i' j')"
proof -
  from pre g obtain s where s: "scan_records p g init_state pre = Inr s"
    and fin: "finish g s = Inr M"
    by (auto simp: from_bam_Inr_iff)
  have inv: "scan_invariant g s"
    using scan_records_invariant [OF init_state_invariant s] .
  have cur: "current_molecule s \<noteq> Some (gene, cell, molecule)"
    using scan_records_current_init [OF s new] .
  from count_run [OF inv fin run cur j jlt]
  obtain s' M' where s': "scan_records p g s run = Inr s'" and inv': "scan_invariant g s'"
    and fin': "finish g s' = Inr M'"
    and c: "map_of (cell_id_to_index s') cell = Some (row_of s cell)"
    and one: "count_at (matrix M') (row_of s cell) j = count_at (matrix M) (row_of s cell) j + 1"
    and others: "\<forall>i' j'. (i', j') \<noteq> (row_of s cell, j) \<longrightarrow>
                         count_at (matrix M') i' j' = count_at (matrix M) i' j'"
    by blast
  have "scan_records p g init_state (pre @ run) = Inr s'"
    by (simp add: scan_records_append s s')
  with g fin' have "from_bam p annotation (pre @ run) = Inr M'"
    by (auto simp: from_bam_Inr_iff)
  with finish_row_label [OF inv' fin' c] one others show ?thesis by blast
qed

theorem contiguous_duplicates_count_once_witness:
  "build_gene_index scenario_annotation = Inr scenario_gene_index \<and>
   from_bam default_params scenario_annotation other_molecule = Inr other_molecule_result \<and>
   mixed_quality_run \<noteq> [] \<and>
   mixed_quality_run = [tagged ''GeneA'' ''CellX'' ''Mol1'' 30, tagged ''GeneA'' ''CellX'' ''Mol1'' 40] \<and>
   molecule_of default_params (tagged ''GeneA'' ''CellX'' ''Mol1'' 30)
     = Some (''GeneA'', ''CellX'', ''Mol1'') \<and>
   molecule_of default_params (tagged ''GeneA'' ''CellX'' ''Mol1'' 40)
     = Some (''GeneA'', ''CellX'', ''Mol1'') \<and>
   last (valid_molecules default_params other_molecule) \<noteq> (''GeneA'', ''CellX'', ''Mol1'') \<and>
   map_of scenario_gene_index ''GeneA'' = Some 0 \<and>
   0 < length scenario_gene_index \<and>
   count_at (matrix other_molecule_result) 0 0 = 0 \<and>
   (\<exists>M' i. from_bam default_params scenario_annotation (other_molecule @ mixed_quality_run) = Inr M' \<and>
           i < length (row_index M') \<and> row_index M' ! i = ''CellX'' \<and>
           count_at (matrix M') i 0 = count_at (matrix other_molecule_result) i 0 + 1 \<and>
           (\<forall>i' j'. (i', j') \<noteq> (i, 0) \<longrightarrow>
                    count_at (matrix M') i' j' = count_at (matrix other_molecule_result) i' j'))"
proof -
  have h1: "build_gene_index scenario_annotation = Inr scenario_gene_index"
    by code_simp
  have h2: "from_bam default_params scenario_annotation other_molecule = Inr other_molecule_result"
    by code_simp
  have h3: "mixed_quality_run \<noteq> []"
    by (simp add: mixed_quality_run_def)
  have r: "mixed_quality_run
             = [tagged ''GeneA'' ''CellX'' ''Mol1'' 30, tagged ''GeneA'' ''CellX'' ''Mol1'' 40]"
    by (simp add: mixed_quality_run_def)
  have m30: "molecule_of default_params (tagged ''GeneA'' ''CellX'' ''Mol1'' 30)
               = Some (''GeneA'', ''CellX'', ''Mol1'')"
    and m40: "molecule_of default_params (tagged ''GeneA'' ''CellX'' ''Mol1'' 40)
               = Some (''GeneA'', ''CellX'', ''Mol1'')"
    by (simp_all add: molecule_of_def dropped_def default_params_def tagged_def)
  then have h4: "\<forall>r \<in> set mixed_quality_run.
                   molecule_of default_params r = Some (''GeneA'', ''CellX'', ''Mol1'')"
    by (simp add: mixed_quality_run_def)
  have l: "last (valid_molecules default_params other_molecule) \<noteq> (''GeneA'', ''CellX'', ''Mol1'')"
    by code_simp
  then have h5: "valid_molecules default_params other_molecule = [] \<or>
                 last (valid_molecules default_params other_molecule) \<noteq> (''GeneA'', ''CellX'', ''Mol1'')"
    by simp
  have h6: "map_of scenario_gene_index ''GeneA'' = Some 0"
    by (simp add: scenario_gene_index_def)
  have h7: "0 < length scenario_gene_index"
    by (simp add: scenario_gene_index_def)
  have z: "count_at (matrix other_molecule_result) 0 0 = 0"
    by code_simp
  from contiguous_duplicates_count_once [OF h1 h2 h3 h4 h5 h6 h7] h1 h2 h3 r m30 m40 l h6 h7 z
  show ?thesis by blast
qed

section \<open>Duplicates that are not contiguous\<close>

text \<open>
  Claim C8, as stated, fails: with a mapping-quality threshold of 10, a record of
  another triple with mapping quality 5 stands between two records of the molecule
  (GeneA, CellX, Mol1); it is dropped, the two records stay adjacent for the scan, and the
  molecule is counted once: the matrix holds the single value 1.
\<close>

theorem separated_duplicates_counterexample:
  "from_bam strict_params scenario_annotation interrupted_bam =
     Inr \<lparr> matrix = \<lparr> csr_rows = [[(0, 1)]], n_cols = 2 \<rparr>,
           row_index = [''CellX''], col_index = [''GeneA'', ''GeneB''] \<rparr>"
  by code_simp

text \<open>
  Claim C8, amended. Let the same (gene, cell, molecule) triple appear in two valid
  records of a stream and in no other valid record before the second of them, let a
  valid record (all three tags, mapping quality not below the threshold) bearing a
  different triple stand anywhere between the two, and let \<^verbatim>\<open>from_bam\<close> return a matrix
  for the stream before the second occurrence. Then each of the two occurrences counts a
  molecule of its own: \<^verbatim>\<open>from_bam\<close> returns a matrix for the stream up to and with each
  occurrence, and at the row of the cell and the column of the gene the first occurrence
  adds exactly 1 to the count before it, and the second occurrence adds exactly 1 to the
  count before it.
\<close>

theorem separated_duplicates_count_twice:
  assumes g: "build_gene_index annotation = Inr g"
    and before: "from_bam p annotation (pre @ r1 # mid) = Inr M2"
    and r1: "molecule_of p r1 = Some (gene, cell, molecule)"
    and r2: "molecule_of p r2 = Some (gene, cell, molecule)"
    and twice: "(gene, cell, molecule) \<notin> set (valid_molecules p pre)"
               "(gene, cell, molecule) \<notin> set (valid_molecules p mid)"
    and between: "x \<in> set mid" "molecule_of p x = Some k'" "k' \<noteq> (gene, cell, molecule)"
  shows "\<exists>M0 M1 M3 i j.
           from_bam p annotation pre = Inr M0 \<and>
           from_bam p annotation (pre @ [r1]) = Inr M1 \<and>
           from_bam p annotation (pre @ r1 # mid @ [r2]) = Inr M3 \<and>
           map_of g gene = Some j \<and>
           i < length (row_index M3) \<and> row_index M3 ! i = cell \<and>
           count_at (matrix M1) i j = count_at (matrix M0) i j + 1 \<and>
           count_at (matrix M3) i j = count_at (matrix M2) i j + 1"
proof -
  let ?t = "(gene, cell, molecule)"
  from before g obtain s2 where s2: "scan_records p g init_state (pre @ r1 # mid) = Inr s2"
    and fin2: "finish g s2 = Inr M2"
    by (auto simp: from_bam_Inr_iff)
  from s2 obtain s0 s1 where s0: "scan_records p g init_state pre = Inr s0"
    and s1: "process_record p g s0 r1 = Inr s1"
    and mid: "scan_records p g s1 mid = Inr s2"
    by (auto simp: scan_records_append split: sum.splits)
  have inv0: "scan_invariant g s0"
    using scan_records_invariant [OF init_state_invariant s0] .
  have inv1: "scan_invariant g s1" using process_record_invariant [OF inv0 s1] .
  have inv2: "scan_invariant g s2" using scan_records_invariant [OF inv1 mid] .
  have "valid_molecules p pre = [] \<or> last (valid_molecules p pre) \<noteq> ?t"
    using twice(1) by (metis last_in_set)
  from scan_records_current_init [OF s0 this]
  have cur0: "current_molecule s0 \<noteq> Some ?t" .
  with s1 r1 have c1: "count_molecule g s0 ?t = Inr s1"
    by (simp add: process_record_molecule)
  then obtain j where j: "map_of g gene = Some j"
    using count_molecule_cases(1) by blast
  have g1: "gene_indices s1 = gene_indices s0 @ [j]"
    using c1 unfolding count_molecule_Inr [OF j] by auto
  have cols2: "\<forall>j' \<in> set (gene_indices s2). j' < length g"
    using finish_columns [OF inv2 fin2] .
  have sub: "set (gene_indices s1) \<subseteq> set (gene_indices s2)"
    using scan_records_grows [OF mid] by blast
  have jlt: "j < length g" using cols2 sub g1 by auto
  have "\<forall>j' \<in> set (gene_indices s0). j' < length g" using cols2 sub g1 by auto
  from finish_succeeds [OF inv0 this] obtain M0 where fin0: "finish g s0 = Inr M0" ..
  have run1: "[r1] \<noteq> []" "\<forall>r \<in> set [r1]. molecule_of p r = Some ?t" using r1 by simp_all
  from count_run [OF inv0 fin0 run1 cur0 j jlt]
  obtain s1' M1 where s1': "scan_records p g s0 [r1] = Inr s1'" and fin1: "finish g s1' = Inr M1"
    and d1: "map_of (cell_id_to_index s1') cell = Some (row_of s0 cell)"
    and one1: "count_at (matrix M1) (row_of s0 cell) j = count_at (matrix M0) (row_of s0 cell) j + 1"
    by blast
  have eq1: "s1' = s1" using s1' s1 by simp
  have d2: "map_of (cell_id_to_index s2) cell = Some (row_of s0 cell)"
    using scan_records_grows [OF mid] d1 eq1 by blast
  have row2: "row_of s2 cell = row_of s0 cell" using row_of_known [OF d2] .
  have k': "k' \<in> set (valid_molecules p mid)"
    using valid_molecules_member [OF between(1,2)] .
  then have ne: "valid_molecules p mid \<noteq> []" by auto
  then have "last (valid_molecules p mid) \<noteq> ?t" using twice(2) by (metis last_in_set)
  with scan_records_current [OF mid] ne have cur2: "current_molecule s2 \<noteq> Some ?t"
    by simp
  have run2: "[r2] \<noteq> []" "\<forall>r \<in> set [r2]. molecule_of p r = Some ?t" using r2 by simp_all
  from count_run [OF inv2 fin2 run2 cur2 j jlt]
  obtain s3 M3 where s3: "scan_records p g s2 [r2] = Inr s3" and inv3: "scan_invariant g s3"
    and fin3: "finish g s3 = Inr M3"
    and d3: "map_of (cell_id_to_index s3) cell = Some (row_of s2 cell)"
    and one3: "count_at (matrix M3) (row_of s2 cell) j = count_at (matrix M2) (row_of s2 cell) j + 1"
    by blast
  have f0: "from_bam p annotation pre = Inr M0"
    using g s0 fin0 by (auto simp: from_bam_Inr_iff)
  have "scan_records p g init_state (pre @ [r1]) = Inr s1'"
    by (simp add: scan_records_append s0 s1' del: scan_records.simps)
  then have f1: "from_bam p annotation (pre @ [r1]) = Inr M1"
    using g fin1 by (auto simp: from_bam_Inr_iff)
  have "scan_records p g init_state ((pre @ r1 # mid) @ [r2]) = Inr s3"
    by (simp only: scan_records_append [of p g init_state "pre @ r1 # mid"] s2 sum.case s3)
  then have f3: "from_bam p annotation (pre @ r1 # mid @ [r2]) = Inr M3"
    using g fin3 by (auto simp: from_bam_Inr_iff)
  from finish_row_label [OF inv3 fin3 d3]
  have lab: "row_of s0 cell < length (row_index M3) \<and> row_index M3 ! row_of s0 cell = cell"
    by (simp add: row2)
  from f0 f1 f3 j lab one1 one3 show ?thesis
    unfolding row2 by blast
qed

theorem separated_duplicates_count_twice_witness:
  "build_gene_index scenario_annotation = Inr scenario_gene_index \<and>
   from_bam default_params scenario_annotation
     ([] @ tagged ''GeneA'' ''CellX'' ''Mol1'' 30 # between_records) = Inr before_second_result \<and>
   molecule_of default_params (tagged ''GeneA'' ''CellX'' ''Mol1'' 30)
     = Some (''GeneA'', ''CellX'', ''Mol1'') \<and>
   molecule_of default_params (tagged ''GeneA'' ''CellX'' ''Mol1'' 40)
     = Some (''GeneA'', ''CellX'', ''Mol1'') \<and>
   (''GeneA'', ''CellX'', ''Mol1'') \<notin> set (valid_molecules default_params []) \<and>
   (''GeneA'', ''CellX'', ''Mol1'') \<notin> set (valid_molecules default_params between_records) \<and>
   tagged ''GeneB'' ''CellY'' ''Mol2'' 30 \<in> set between_records \<and>
   molecule_of default_params (tagged ''GeneB'' ''CellY'' ''Mol2'' 30)
     = Some (''GeneB'', ''CellY'', ''Mol2'') \<and>
   (''GeneB'', ''CellY'', ''Mol2'') \<noteq> (''GeneA'', ''CellX'', ''Mol1'') \<and>
   (\<exists>M0 M1 M3 i j.
      from_bam default_params scenario_annotation [] = Inr M0 \<and>
      from_bam default_params scenario_annotation ([] @ [tagged ''GeneA'' ''CellX'' ''Mol1'' 30]) = Inr M1 \<and>
      from_bam default_params scenario_annotation
        ([] @ tagged ''GeneA'' ''CellX'' ''Mol1'' 30 # between_records
           @ [tagged ''GeneA'' ''CellX'' ''Mol1'' 40]) = Inr M3 \<and>
      map_of scenario_gene_index ''GeneA'' = Some j \<and>
      i < length (row_index M3) \<and> row_index M3 ! i = ''CellX'' \<and>
      count_at (matrix M1) i j = count_at (matrix M0) i j + 1 \<and>
      count_at (matrix M3) i j = count_at (matrix before_second_result) i j + 1)"
proof -
  have h1: "build_gene_index scenario_annotation = Inr scenario_gene_index"
    by code_simp
  have h2: "from_bam default_params scenario_annotation
              ([] @ tagged ''GeneA'' ''CellX'' ''Mol1'' 30 # between_records) = Inr before_second_result"
    by code_simp
  have h3: "molecule_of default_params (tagged ''GeneA'' ''CellX'' ''Mol1'' 30)
              = Some (''GeneA'', ''CellX'', ''Mol1'')"
    and h4: "molecule_of default_params (tagged ''GeneA'' ''CellX'' ''Mol1'' 40)
              = Some (''GeneA'', ''CellX'', ''Mol1'')"
    and h8: "molecule_of default_params (tagged ''GeneB'' ''CellY'' ''Mol2'' 30)
              = Some (''GeneB'', ''CellY'', ''Mol2'')"
    by (simp_all add: molecule_of_def dropped_def default_params_def tagged_def)
  have h5: "(''GeneA'', ''CellX'', ''Mol1'') \<notin> set (valid_molecules default_params [])"
    by (simp add: valid_molecules_def)
  have h6: "(''GeneA'', ''CellX'', ''Mol1'') \<notin> set (valid_molecules default_params between_records)"
    by code_simp
  have h7: "tagged ''GeneB'' ''CellY'' ''Mol2'' 30 \<in> set between_records"
    by (simp add: between_records_def)
  have h9: "(''GeneB'', ''CellY'', ''Mol2'') \<noteq> (''GeneA'', ''CellX'', ''Mol1'')"
    by simp
  from separated_duplicates_count_twice [OF h1 h2 h3 h4 h5 h6 h7 h8 h9] h1 h2 h3 h4 h5 h6 h7 h8 h9
  show ?thesis by blast
qed

section \<open>A gene that is not in the index\<close>

text \<open>
  Claim C4, as stated, fails: a record that carries the gene tag GeneC, which is not in
  the gene index, but no cell tag, is dropped like any record with a missing tag;
  \<^verbatim>\<open>from_bam\<close> returns a matrix (with no rows) and raises nothing.
\<close>

theorem unknown_gene_counterexample:
  "build_gene_index scenario_annotation = Inr scenario_gene_index \<and>
   get_tag gene_only (gene_id_tag default_params) = Inr ''GeneC'' \<and>
   map_of scenario_gene_index ''GeneC'' = None \<and>
   from_bam default_params scenario_annotation [gene_only] =
     Inr \<lparr> matrix = \<lparr> csr_rows = [], n_cols = 2 \<rparr>,
           row_index = [], col_index = [''GeneA'', ''GeneB''] \<rparr>"
  by code_simp

text \<open>
  Claim C4, amended. When the annotation gives a gene index and the stream contains a
  valid record (all three tags present, mapping quality not below the threshold) whose
  gene is not in the index, \<^verbatim>\<open>from_bam\<close> raises \<open>KeyError\<close> for a gene that is not in the
  index and returns no matrix.
\<close>

theorem unknown_gene_is_fatal:
  assumes "build_gene_index annotation = Inr g" "r \<in> set bam"
    "molecule_of p r = Some (gene, cell, molecule)" "map_of g gene = None"
  shows "\<exists>gene'. from_bam p annotation bam = Inl (KeyError gene') \<and> map_of g gene' = None"
  using scan_records_unknown_gene [OF init_state_invariant assms(2,3,4)] assms(1)
  by (auto simp: from_bam_def)

theorem unknown_gene_is_fatal_witness:
  "build_gene_index scenario_annotation = Inr scenario_gene_index \<and>
   tagged ''GeneC'' ''CellX'' ''Mol1'' 30 \<in> set (scenario_bam @ [tagged ''GeneC'' ''CellX'' ''Mol1'' 30]) \<and>
   molecule_of default_params (tagged ''GeneC'' ''CellX'' ''Mol1'' 30)
     = Some (''GeneC'', ''CellX'', ''Mol1'') \<and>
   map_of scenario_gene_index ''GeneC'' = None \<and>
   (\<exists>gene'. from_bam default_params scenario_annotation
               (scenario_bam @ [tagged ''GeneC'' ''CellX'' ''Mol1'' 30]) = Inl (KeyError gene') \<and>
            map_of scenario_gene_index gene' = None)"
proof -
  have h1: "build_gene_index scenario_annotation = Inr scenario_gene_index"
    by code_simp
  have h2: "tagged ''GeneC'' ''CellX'' ''Mol1'' 30
              \<in> set (scenario_bam @ [tagged ''GeneC'' ''CellX'' ''Mol1'' 30])"
    by simp
  have h3: "molecule_of default_params (tagged ''GeneC'' ''CellX'' ''Mol1'' 30)
              = Some (''GeneC'', ''CellX'', ''Mol1'')"
    by (simp add: molecule_of_def dropped_def default_params_def tagged_def)
  have h4: "map_of scenario_gene_index ''GeneC'' = None"
    by (simp add: scenario_gene_index_def)
  from unknown_gene_is_fatal [OF h1 h2 h3 h4] h1 h2 h3 h4
  show ?thesis by blast
qed

section \<open>Row labels\<close>

lemma scan_records_cells:
  assumes "scan_invariant g s" "scan_records p g s rs = Inr s'"
  shows "map fst (cell_id_to_index s') =
           first_seen_from (map fst (cell_id_to_index s))
             (map cell_of (counted (current_molecule s) (List.map_filter (molecule_of p) rs))) \<and>
         length (cell_indices s') =
           length (cell_indices s) + length (counted (current_molecule s) (List.map_filter (molecule_of p) rs))"
  using assms
proof (induction rs arbitrary: s)
  case Nil
  then show ?case by (simp add: map_filter_simps)
next
  case (Cons r rs)
  show ?case
  proof (cases "molecule_of p r")
    case None
    with Cons.prems(2) have "scan_records p g s rs = Inr s'"
      by (simp add: process_record_molecule)
    from Cons.IH [OF Cons.prems(1) this] None show ?thesis
      by (simp add: map_filter_simps)
  next
    case (Some k)
    obtain gene cell molecule where k: "k = (gene, cell, molecule)" by (cases k) auto
    show ?thesis
    proof (cases "current_molecule s = Some k")
      case True
      with Some Cons.prems(2) have "scan_records p g s rs = Inr s'"
        by (simp add: process_record_molecule)
      from Cons.IH [OF Cons.prems(1) this] Some True show ?thesis
        by (simp add: map_filter_simps)
    next
      case False
      with Some Cons.prems(2) obtain s1 where s1: "count_molecule g s k = Inr s1"
        and rest: "scan_records p g s1 rs = Inr s'"
        by (auto simp: process_record_molecule split: sum.splits)
      from s1 obtain j where j: "map_of g gene = Some j"
        using count_molecule_cases(1) k by blast
      have inv1: "scan_invariant g s1" using count_molecule_invariant [OF Cons.prems(1) s1] .
      have s1v: "s1 = \<lparr> data = data s @ [1],
           cell_indices = cell_indices s @ [row_of s cell],
           gene_indices = gene_indices s @ [j],
           n_cells = (if cell \<in> fst ` set (cell_id_to_index s) then n_cells s else n_cells s + 1),
           cell_id_to_index = (if cell \<in> fst ` set (cell_id_to_index s) then cell_id_to_index s
                               else cell_id_to_index s @ [(cell, n_cells s)]),
           current_molecule = Some (gene, cell, molecule) \<rparr>"
        using s1 unfolding k count_molecule_Inr [OF j] by simp
      have s1_eq: "map fst (cell_id_to_index s1) =
                    (if cell \<in> set (map fst (cell_id_to_index s)) then map fst (cell_id_to_index s)
                     else map fst (cell_id_to_index s) @ [cell])"
        and cur1: "current_molecule s1 = Some k"
        and len1: "length (cell_indices s1) = Suc (length (cell_indices s))"
        by (simp_all add: s1v k)
      from Cons.IH [OF inv1 rest] Some False show ?thesis
        by (simp add: map_filter_simps s1_eq cur1 len1 k cell_of_def)
    qed
  qed
qed

text \<open>
  Claim C5. Whenever \<^verbatim>\<open>from_bam\<close> returns a matrix, its row labels are the distinct cell
  barcodes of the counted molecules in the order of their first occurrence, and the
  dictionary of the scan gives the \<open>k\<close>-th of them the row index \<open>k\<close>.
\<close>

theorem rows_in_first_seen_order:
  assumes "from_bam p annotation bam = Inr M"
  shows "row_index M = first_seen (map cell_of (counted_molecules p bam)) \<and>
         (\<exists>g s. build_gene_index annotation = Inr g \<and>
                scan_records p g init_state bam = Inr s \<and>
                cell_id_to_index s = zip (row_index M) [0 ..< length (row_index M)])"
proof -
  from assms obtain g s where g: "build_gene_index annotation = Inr g"
    and s: "scan_records p g init_state bam = Inr s"
    and fin: "finish g s = Inr M"
    by (auto simp: from_bam_def split: sum.splits)
  have inv: "scan_invariant g s"
    using scan_records_invariant [OF init_state_invariant s] .
  then have dense: "map snd (cell_id_to_index s) = [0 ..< n_cells s]"
    by (simp add: scan_invariant_def)
  have rows: "row_index M = map fst (cell_id_to_index s)"
    using fin keys_by_value_dense [OF dense]
    by (auto simp: finish_def Let_def split: sum.splits)
  have "map fst (cell_id_to_index s) = first_seen (map cell_of (counted_molecules p bam))"
    using scan_records_cells [OF init_state_invariant s]
    by (simp add: first_seen_def counted_molecules_def init_state_def)
  then have A: "row_index M = first_seen (map cell_of (counted_molecules p bam))"
    by (simp only: rows)
  have B: "cell_id_to_index s = zip (row_index M) [0 ..< length (row_index M)]"
    unfolding rows by (rule dense_dict_zip [OF dense, symmetric])
  from A g s B show ?thesis by blast
qed

theorem rows_in_first_seen_order_witness:
  "from_bam default_params scenario_annotation first_seen_bam = Inr first_seen_result \<and>
   map cell_of (counted_molecules default_params first_seen_bam) = [''c2'', ''c1'', ''c2'', ''c3''] \<and>
   row_index first_seen_result = first_seen (map cell_of (counted_molecules default_params first_seen_bam)) \<and>
   row_index first_seen_result = [''c2'', ''c1'', ''c3''] \<and>
   (\<exists>g s. build_gene_index scenario_annotation = Inr g \<and>
          scan_records default_params g init_state first_seen_bam = Inr s \<and>
          cell_id_to_index s = zip (row_index first_seen_result) [0 ..< length (row_index first_seen_result)])"
proof -
  have h: "from_bam default_params scenario_annotation first_seen_bam = Inr first_seen_result"
    by code_simp
  have c: "map cell_of (counted_molecules default_params first_seen_bam) = [''c2'', ''c1'', ''c2'', ''c3'']"
    by code_simp
  have r: "row_index first_seen_result = [''c2'', ''c1'', ''c3'']"
    by (simp add: first_seen_result_def)
  from rows_in_first_seen_order [OF h] h c r show ?thesis by blast
qed

section \<open>The shape of the matrix\<close>

lemma from_bam_shape:
  assumes "from_bam p annotation bam = Inr M"
  shows "shape (matrix M) = (length (counted_molecules p bam), length (col_index M))"
proof -
  from assms obtain g s where s: "scan_records p g init_state bam = Inr s"
    and fin: "finish g s = Inr M"
    by (auto simp: from_bam_def split: sum.splits)
  have "length (cell_indices s) = length (counted_molecules p bam)"
    using scan_records_cells [OF init_state_invariant s]
    by (simp add: counted_molecules_def init_state_def)
  moreover have "shape (matrix M) = (length (cell_indices s), length g)"
    and "length (col_index M) = length g"
    using fin
    by (auto simp: finish_def Let_def new_coo_matrix_def shape_def tocsr_def keys_by_value_def
             split: if_splits)
  ultimately show ?thesis by simp
qed

text \<open>
  Claim C1. The claim is that the matrix of \<^verbatim>\<open>from_bam\<close> has the shape
  (number of row labels, number of column labels), which is (2, 2) on the scenario of the
  specification. The code takes the number of rows from \<^verbatim>\<open>len(cell_indices)\<close>, the
  number of counted molecules (line 175), not from the number of cells: on the scenario
  it returns a matrix of shape (3, 2), whose third row is empty, with the two row labels
  CellX and CellY.
\<close>

theorem scenario_shape_is_3_by_2:
  "from_bam default_params scenario_annotation scenario_bam =
     Inr \<lparr> matrix = \<lparr> csr_rows = [[(0, 1), (1, 1)], [(0, 1)], []], n_cols = 2 \<rparr>,
           row_index = [''CellX'', ''CellY''], col_index = [''GeneA'', ''GeneB''] \<rparr> \<and>
   shape (\<lparr> csr_rows = [[(0, 1), (1, 1)], [(0, 1)], []], n_cols = 2 \<rparr> :: 32 word csr_matrix)
     = (3, 2) \<and>
   (length [''CellX'', ''CellY''], length [''GeneA'', ''GeneB'']) = (2, 2)"
  by code_simp

section \<open>The gene index\<close>

lemma gene_index_loop_fresh:
  assumes "\<forall>r \<in> set rs. get_attribute r ''gene_name'' \<noteq> None"
    and "distinct (map (\<lambda>r. the (get_attribute r ''gene_name'')) rs)"
    and "set (map (\<lambda>r. the (get_attribute r ''gene_name'')) rs) \<inter> fst ` set d = {}"
  shows "gene_index_loop i rs d =
           Inr (d @ zip (map (\<lambda>r. the (get_attribute r ''gene_name'')) rs) [i ..< i + length rs])"
  using assms
proof (induction rs arbitrary: i d)
  case Nil
  show ?case by simp
next
  case (Cons r rs)
  from Cons.prems(1) obtain name where name: "get_attribute r ''gene_name'' = Some name"
    by auto
  have fresh: "name \<notin> fst ` set d" using Cons.prems(3) name by auto
  have "gene_index_loop (Suc i) rs (d @ [(name, i)]) =
          Inr ((d @ [(name, i)]) @
               zip (map (\<lambda>r. the (get_attribute r ''gene_name'')) rs) [Suc i ..< Suc i + length rs])"
    using Cons.prems name by (intro Cons.IH) auto
  moreover have "i < i + length (r # rs)" by simp
  then have "[i ..< i + length (r # rs)] = i # [Suc i ..< i + length (r # rs)]"
    by (rule upt_conv_Cons)
  ultimately show ?case
    by (simp add: name update_fresh [OF fresh] del: upt_Suc)
qed

lemma dense_zip:
  assumes "distinct names"
  shows "dense (zip names [0 ..< length names])"
proof -
  let ?d = "zip names [0 ..< length names]"
  let ?f = "\<lambda>k. the (map_of ?d k)"
  have keys: "fst ` set ?d = set names"
    by (metis length_upt diff_zero map_fst_zip set_map)
  have val: "?f (names ! i) = i" if "i < length names" for i
    using map_of_zip_nth [of names "[0 ..< length names]" i] assms that by simp
  have "bij_betw ?f (set names) {0 ..< length names}"
  proof (rule bij_betw_byWitness [where f' = "\<lambda>i. names ! i"])
    show "\<forall>a \<in> set names. names ! ?f a = a"
      using val by (metis in_set_conv_nth)
    show "\<forall>a' \<in> {0 ..< length names}. ?f (names ! a') = a'"
      using val by simp
    show "?f ` set names \<subseteq> {0 ..< length names}"
      using val by (auto simp: in_set_conv_nth)
    show "(\<lambda>i. names ! i) ` {0 ..< length names} \<subseteq> set names"
      by auto
  qed
  then show ?thesis by (simp add: dense_def keys)
qed

lemma distinct_gene_names_dense:
  assumes "\<forall>r \<in> set (gtf_filter [''gene''] annotation). get_attribute r ''gene_name'' \<noteq> None"
    and "distinct (map (\<lambda>r. the (get_attribute r ''gene_name'')) (gtf_filter [''gene''] annotation))"
  shows "\<exists>g. build_gene_index annotation = Inr g \<and> dense g \<and>
             map fst g = map (\<lambda>r. the (get_attribute r ''gene_name'')) (gtf_filter [''gene''] annotation)"
proof -
  let ?names = "map (\<lambda>r. the (get_attribute r ''gene_name'')) (gtf_filter [''gene''] annotation)"
  have "build_gene_index annotation = Inr (zip ?names [0 ..< length ?names])"
    unfolding build_gene_index_def using gene_index_loop_fresh [OF assms, of "[]" 0] by simp
  moreover have "dense (zip ?names [0 ..< length ?names])"
    by (rule dense_zip [OF assms(2)])
  ultimately show ?thesis by simp
qed

lemma not_dense: "\<not> dense [(''GeneA'', 2), (''GeneB'', 1)]"
  by (auto simp: dense_def bij_betw_def)

text \<open>
  Claim C2. The claim is that the gene index of every annotation is a bijection onto
  the numbers below its size. The code gives each gene record its position among the
  gene records (\<^verbatim>\<open>enumerate\<close>) and a repeated gene name keeps only its last position:
  for the gene records GeneA, GeneB, GeneA the index is GeneA at 2 and GeneB at 1, of
  size 2, which is not dense, and a molecule of GeneA then makes the matrix constructor
  fail, its column 2 being outside the 2 columns.
\<close>

theorem duplicate_gene_names_not_dense:
  "build_gene_index duplicate_annotation = Inr [(''GeneA'', 2), (''GeneB'', 1)] \<and>
   \<not> dense [(''GeneA'', 2), (''GeneB'', 1)] \<and>
   from_bam default_params duplicate_annotation [tagged ''GeneA'' ''CellX'' ''Mol1'' 30]
     = Inl (ValueError ''column index exceeds matrix dimensions'')"
proof -
  have "build_gene_index duplicate_annotation = Inr [(''GeneA'', 2), (''GeneB'', 1)]"
    by code_simp
  moreover have "from_bam default_params duplicate_annotation [tagged ''GeneA'' ''CellX'' ''Mol1'' 30]
     = Inl (ValueError ''column index exceeds matrix dimensions'')"
    by code_simp
  ultimately show ?thesis using not_dense by simp
qed

section \<open>Saving and loading\<close>

text \<open>
  Claim C6. Loading under the prefix that a matrix was saved under returns that matrix:
  the same matrix values, row labels and column labels, in the same order. The three
  paths differ, so no write of \<^verbatim>\<open>save\<close> overwrites another.
\<close>

theorem load_save_roundtrip: "load (save M prefix fs) prefix = Inr M"
  by (simp add: load_def save_def np_save_def save_npz_def load_npz_def np_load_def)

theorem load_save_roundtrip_witness:
  "load (save example_a ''a'' (\<lambda>path. None)) ''a'' = Inr example_a"
  using load_save_roundtrip [of example_a "''a''" "\<lambda>path. None"] by simp

section \<open>Merging\<close>

lemma comprehension_all2:
  "list_all2 (\<lambda>x y. f x = Inr (h y)) xs ys \<Longrightarrow> comprehension f xs = Inr (map h ys)"
  by (induction xs ys rule: list_all2_induct) auto

lemma load_parts:
  assumes "load fs prefix = Inr M"
  shows "load_npz fs (prefix @ ''.npz'') = Inr (matrix M)"
    and "np_load fs (prefix @ ''_row_index.npy'') = Inr (row_index M)"
    and "np_load fs (prefix @ ''_col_index.npy'') = Inr (col_index M)"
  using assms by (auto simp: load_def split: sum.splits)

text \<open>
  Claim C7. Let the files under a non-empty list of prefixes hold matrices that all have
  \<open>n\<close> columns (as matrices over identical column labels have). Then
  \<^verbatim>\<open>merge_matrices\<close> returns a matrix whose rows are the rows of the inputs, one input
  after the other: its shape is (sum of the inputs' row counts, \<open>n\<close>), its row labels
  are the concatenation of the inputs' row labels in input order, and its column labels
  are those of the first input.
\<close>

theorem merge_stacks_rows:
  assumes files: "list_all2 (\<lambda>prefix M. load fs prefix = Inr M) input_prefixes Ms"
    and nonempty: "input_prefixes \<noteq> []"
    and cols: "\<forall>M \<in> set Ms. n_cols (matrix M) = n"
  shows "\<exists>R. merge_matrices fs input_prefixes = Inr R \<and>
             shape (matrix R) = (sum_list (map (\<lambda>M. fst (shape (matrix M))) Ms), n) \<and>
             csr_rows (matrix R) = concat (map (\<lambda>M. csr_rows (matrix M)) Ms) \<and>
             row_index R = concat (map row_index Ms) \<and>
             col_index R = col_index (hd Ms)"
proof -
  from files nonempty obtain M0 Ms' where Ms: "Ms = M0 # Ms'"
    by (cases Ms) (auto simp: list_all2_Cons2)
  have c: "comprehension (\<lambda>p. np_load fs (p @ ''_col_index.npy'')) input_prefixes = Inr (map col_index Ms)"
    by (rule comprehension_all2) (rule list_all2_mono [OF files], simp add: load_parts)
  have r: "comprehension (\<lambda>p. np_load fs (p @ ''_row_index.npy'')) input_prefixes = Inr (map row_index Ms)"
    by (rule comprehension_all2) (rule list_all2_mono [OF files], simp add: load_parts)
  have m: "comprehension (\<lambda>p. load_npz fs (p @ ''.npz'')) input_prefixes = Inr (map matrix Ms)"
    by (rule comprehension_all2) (rule list_all2_mono [OF files], simp add: load_parts)
  have v: "vstack (map matrix Ms) =
             Inr \<lparr> csr_rows = concat (map csr_rows (map matrix Ms)), n_cols = n \<rparr>"
    using cols by (auto simp: vstack_def Ms)
  have "merge_matrices fs input_prefixes =
          Inr \<lparr> matrix = \<lparr> csr_rows = concat (map csr_rows (map matrix Ms)), n_cols = n \<rparr>,
                row_index = concat (map row_index Ms), col_index = col_index M0 \<rparr>"
    unfolding merge_matrices_def c r m sum.case v by (simp add: np_concatenate_def Ms)
  then show ?thesis
    by (simp add: shape_def Ms length_concat comp_def)
qed

theorem merge_stacks_rows_witness:
  "list_all2 (\<lambda>prefix M. load example_fs prefix = Inr M) [''a'', ''b''] [example_a, example_b] \<and>
   [''a'', ''b''] \<noteq> [] \<and>
   n_cols (matrix example_a) = 2 \<and> n_cols (matrix example_b) = 2 \<and>
   shape (matrix example_a) = (2, 2) \<and> shape (matrix example_b) = (3, 2) \<and>
   (\<exists>R. merge_matrices example_fs [''a'', ''b''] = Inr R \<and>
        shape (matrix R) = (5, 2) \<and>
        csr_rows (matrix R) = concat (map (\<lambda>M. csr_rows (matrix M)) [example_a, example_b]) \<and>
        row_index R = concat (map row_index [example_a, example_b]) \<and>
        col_index R = col_index (hd [example_a, example_b]))"
proof -
  have h1: "list_all2 (\<lambda>prefix M. load example_fs prefix = Inr M) [''a'', ''b'']
              [example_a, example_b]"
    by code_simp
  have h2: "[''a'', ''b''] \<noteq> []" by simp
  have h3: "\<forall>M \<in> set [example_a, example_b]. n_cols (matrix M) = 2"
    by (simp add: example_a_def example_b_def)
  have sa: "shape (matrix example_a) = (2, 2)" and sb: "shape (matrix example_b) = (3, 2)"
    by (simp_all add: shape_def example_a_def example_b_def)
  have sum: "sum_list (map (\<lambda>M. fst (shape (matrix M))) [example_a, example_b]) = 5"
    by (simp add: sa sb)
  have h3': "n_cols (matrix example_a) = 2 \<and> n_cols (matrix example_b) = 2"
    using h3 by simp
  from merge_stacks_rows [OF h1 h2 h3] h1 h2 h3' sa sb show ?thesis
    unfolding sum by blast
qed

section \<open>Labels imported by \<^verbatim>\<open>from_mtx\<close>\<close>

lemma split_lines_butlast:
  "\<forall>l \<in> set (butlast (split_lines t)). l \<noteq> [] \<and> last l = LF"
proof (induction t)
  case Nil
  show ?case by simp
next
  case (Cons c cs)
  show ?case
  proof (cases "c = LF")
    case True
    with Cons show ?thesis by auto
  next
    case False
    show ?thesis
    proof (cases "split_lines cs")
      case Nil
      with False show ?thesis by simp
    next
      case (Cons l ls)
      with Cons.IH False show ?thesis by (auto split: if_splits)
    qed
  qed
qed

lemma split_lines_inner:
  "\<forall>l \<in> set (split_lines t). l \<noteq> [] \<and> LF \<notin> set (butlast l)"
proof (induction t)
  case Nil
  show ?case by simp
next
  case (Cons c cs)
  show ?case
  proof (cases "c = LF")
    case True
    with Cons show ?thesis by auto
  next
    case False
    show ?thesis
    proof (cases "split_lines cs")
      case Nil
      with False show ?thesis by simp
    next
      case (Cons l ls)
      with Cons.IH False show ?thesis by auto
    qed
  qed
qed

lemma split_lines_last:
  "t \<noteq> [] \<Longrightarrow> split_lines t \<noteq> [] \<and> last (last (split_lines t)) = last t"
proof (induction t)
  case Nil
  then show ?case by simp
next
  case (Cons c cs)
  show ?case
  proof (cases "cs = []")
    case True
    then show ?thesis by simp
  next
    case False
    with Cons.IH have IH: "split_lines cs \<noteq> []" "last (last (split_lines cs)) = last cs"
      by simp_all
    have ne: "[] \<notin> set (split_lines cs)" using split_lines_inner [of cs] by blast
    show ?thesis
    proof (cases "split_lines cs")
      case Nil
      with IH show ?thesis by simp
    next
      case (Cons l ls)
      with IH ne False show ?thesis by (auto split: if_splits)
    qed
  qed
qed

lemma split_lines_Nil: "split_lines t = [] \<longleftrightarrow> t = []"
  using split_lines_last [of t] by (cases t) auto

lemma universal_newlines_last:
  "t \<noteq> [] \<Longrightarrow> universal_newlines t \<noteq> [] \<and>
     (last (universal_newlines t) = LF \<longleftrightarrow> last t = LF \<or> last t = CR)"
proof (induction t rule: universal_newlines.induct)
  case 1
  then show ?case by simp
next
  case (2 c)
  show ?case by simp
next
  case (3 c d cs)
  show ?case
  proof (cases "c = CR \<and> d = LF")
    case True
    with 3 show ?thesis by (cases "cs = []") auto
  next
    case False
    with 3 show ?thesis by auto
  qed
qed

lemma rstrip_nul_terminated:
  assumes "l \<noteq> []" "last l = LF"
  shows "rstrip_nul l = l"
proof -
  from assms have "butlast l @ [LF] = l" using append_butlast_last_id by metis
  then obtain b where l: "l = b @ [LF]" by metis
  show ?thesis by (simp add: rstrip_nul_def l)
qed

lemma rstrip_nul_subset: "set (rstrip_nul l) \<subseteq> set l"
  by (auto simp: rstrip_nul_def dest: set_dropWhileD)

lemma text_label:
  assumes i: "i < length (split_lines (universal_newlines t))"
  shows "if Suc i < length (split_lines (universal_newlines t)) \<or> last t = LF \<or> last t = CR
         then np_array (split_lines (universal_newlines t)) ! i \<noteq> [] \<and>
              last (np_array (split_lines (universal_newlines t)) ! i) = LF
         else LF \<notin> set (np_array (split_lines (universal_newlines t)) ! i)"
proof -
  let ?u = "universal_newlines t"
  let ?ls = "split_lines ?u"
  from i have "?ls \<noteq> []" by auto
  then have u: "?u \<noteq> []" by (simp add: split_lines_Nil)
  then have t: "t \<noteq> []" by auto
  have lab: "np_array ?ls ! i = rstrip_nul (?ls ! i)" using i by (simp add: np_array_def)
  have mem: "?ls ! i \<in> set ?ls" using i by simp
  show ?thesis
  proof (cases "Suc i < length ?ls")
    case True
    then have b: "i < length (butlast ?ls)" by simp
    then have "butlast ?ls ! i = ?ls ! i" by (simp add: nth_butlast)
    moreover have "butlast ?ls ! i \<in> set (butlast ?ls)" using b by (rule nth_mem)
    ultimately have "?ls ! i \<noteq> [] \<and> last (?ls ! i) = LF"
      using split_lines_butlast [of ?u] by metis
    with True lab show ?thesis by (simp add: rstrip_nul_terminated)
  next
    case False
    with i have "i = length ?ls - 1" by simp
    then have line: "?ls ! i = last ?ls" using \<open>?ls \<noteq> []\<close> by (simp add: last_conv_nth)
    have l: "last (?ls ! i) = last ?u" and ne: "?ls ! i \<noteq> []"
      using split_lines_last [OF u] split_lines_inner [of ?u] mem by (simp_all add: line)
    show ?thesis
    proof (cases "last t = LF \<or> last t = CR")
      case True
      then have "last (?ls ! i) = LF" using universal_newlines_last [OF t] l by simp
      with True ne lab show ?thesis by (simp add: rstrip_nul_terminated)
    next
      case no: False
      then have "last (?ls ! i) \<noteq> LF" using universal_newlines_last [OF t] l by simp
      moreover have "LF \<notin> set (butlast (?ls ! i))" using split_lines_inner [of ?u] mem by blast
      ultimately have "LF \<notin> set (?ls ! i)"
        using ne by (cases "?ls ! i" rule: rev_cases) auto
      then have "LF \<notin> set (rstrip_nul (?ls ! i))" using rstrip_nul_subset by blast
      with no False lab show ?thesis by simp
    qed
  qed
qed

text \<open>
  Claim C10, as stated, fails for the last line of a label file that does not end with
  a newline: \<^verbatim>\<open>readlines\<close> returns that line as it is, and the label imported for the
  cell c3 (and for the gene GeneB) equals the newline-free label that \<^verbatim>\<open>from_bam\<close>
  produces for it.
\<close>

theorem from_mtx_last_label_counterexample:
  "from_mtx mtx_fs ''matrix.mtx'' ''rows.txt'' ''cols.txt'' = Inr mtx_import \<and>
   from_bam default_params scenario_annotation first_seen_bam = Inr first_seen_result \<and>
   LF \<notin> set (row_index first_seen_result ! 2) \<and>
   row_index mtx_import ! 2 = row_index first_seen_result ! 2 \<and>
   LF \<notin> set (col_index first_seen_result ! 1) \<and>
   col_index mtx_import ! 1 = col_index first_seen_result ! 1"
  by code_simp

text \<open>
  Claim C10, amended. Every label that \<^verbatim>\<open>from_mtx\<close> imports retains the newline of its
  line, except the last label of a label file whose text does not end with a line
  terminator (a newline, or a carriage return, which is read as a newline): every
  label before the last, and the last one of a file that ends with a line terminator,
  ends with the newline and so differs from every newline-free label, in particular
  from the label that \<^verbatim>\<open>from_bam\<close> produces for the same identifier; the last label of a
  file that does not end with a line terminator is imported without any newline.
\<close>

theorem from_mtx_labels_keep_newline:
  assumes imp: "from_mtx fs matrix_mtx row_index_file col_index_file = Inr M"
    and which: "(path = row_index_file \<and> labels = row_index M) \<or>
               (path = col_index_file \<and> labels = col_index M)"
    and content: "fs path = Some (Text t)"
    and i: "i < length labels"
  shows "if Suc i < length labels \<or> last t = LF \<or> last t = CR
         then labels ! i \<noteq> [] \<and> last (labels ! i) = LF \<and>
              (\<forall>name. LF \<notin> set name \<longrightarrow> labels ! i \<noteq> name)
         else LF \<notin> set (labels ! i)"
proof -
  from imp have "readlines fs row_index_file = Inr (split_lines (universal_newlines t)) \<longrightarrow>
                   row_index M = np_array (split_lines (universal_newlines t))"
    and "readlines fs col_index_file = Inr (split_lines (universal_newlines t)) \<longrightarrow>
                   col_index M = np_array (split_lines (universal_newlines t))"
    by (auto simp: from_mtx_def split: sum.splits)
  moreover have "readlines fs path = Inr (split_lines (universal_newlines t))"
    using content by (simp add: readlines_def)
  ultimately have labels: "labels = np_array (split_lines (universal_newlines t))"
    using which by auto
  then have len: "length labels = length (split_lines (universal_newlines t))"
    by (simp add: np_array_def)
  from i have i': "i < length (split_lines (universal_newlines t))" by (simp add: len)
  from text_label [OF i'] show ?thesis
    unfolding labels [symmetric] len [symmetric]
    by (auto split: if_splits dest: last_in_set)
qed

theorem from_mtx_labels_keep_newline_witness:
  "from_mtx terminated_fs ''matrix.mtx'' ''rows.txt'' ''cols.txt'' = Inr terminated_import \<and>
   terminated_fs ''cols.txt'' = Some (Text (''GeneA'' @ [LF])) \<and>
   0 < length (col_index terminated_import) \<and>
   last (''GeneA'' @ [LF]) = LF \<and>
   LF \<notin> set ''GeneA'' \<and>
   col_index terminated_import ! 0 \<noteq> [] \<and>
   last (col_index terminated_import ! 0) = LF \<and>
   col_index terminated_import ! 0 \<noteq> ''GeneA''"
proof -
  have h1: "from_mtx terminated_fs ''matrix.mtx'' ''rows.txt'' ''cols.txt'' = Inr terminated_import"
    by code_simp
  have h2: "(''cols.txt'' = ''rows.txt'' \<and> col_index terminated_import = row_index terminated_import) \<or>
            (''cols.txt'' = ''cols.txt'' \<and> col_index terminated_import = col_index terminated_import)"
    by simp
  have h3: "terminated_fs ''cols.txt'' = Some (Text (''GeneA'' @ [LF]))"
    by (simp add: terminated_fs_def)
  have h4: "0 < length (col_index terminated_import)"
    by (simp add: terminated_import_def)
  have t: "last (''GeneA'' @ [LF]) = LF" by simp
  have n: "LF \<notin> set ''GeneA''" by simp
  have "col_index terminated_import ! 0 \<noteq> [] \<and> last (col_index terminated_import ! 0) = LF \<and>
        (\<forall>name. LF \<notin> set name \<longrightarrow> col_index terminated_import ! 0 \<noteq> name)"
    using from_mtx_labels_keep_newline [OF h1 h2 h3 h4] t by (simp only: simp_thms if_True) blast
  with t n h1 h3 h4 show ?thesis by blast
qed

end
